theory Spec2Isabelle
  imports Complex_Main
begin

section \<open>The self-distillation loss of \<^verbatim>\<open>util/train_module/self_distill.py\<close>\<close>

text \<open>
  The module holds one class, \<^verbatim>\<open>DistillLoss\<close>, with a constructor that precomputes
  the per-epoch teacher temperature and a \<^verbatim>\<open>forward\<close> method that computes the loss.

  Conventions of the embedding:
  \<^item> Python integers are \<^typ>\<open>int\<close>; lengths and positions inside a list are \<^typ>\<open>nat\<close>.
  \<^item> Floating-point numbers are idealised as \<^typ>\<open>real\<close>: rounding, overflow to
    infinity and NaN are not represented. A division by a zero temperature or by a
    zero batch size yields infinity or NaN in the program and \<open>0\<close> in HOL, so every
    numeric statement below is made for non-zero temperatures and non-empty blocks.
    Shapes, raised exceptions, the number of accumulated terms and the entries of the
    schedule that the program stores without arithmetic do not depend on rounding.
    A statement about the value of the loss is a statement about the formula in exact
    arithmetic; the floating-point result of the program can differ from it.
  \<^item> A raised exception is the \<open>Inl\<close> branch of a sum type.
  \<^item> The library calls (\<^verbatim>\<open>np.linspace\<close>, \<^verbatim>\<open>np.ones\<close>, \<^verbatim>\<open>np.concatenate\<close>, integer
    indexing of an array, \<^verbatim>\<open>Tensor.chunk\<close>, \<^verbatim>\<open>F.softmax\<close>, \<^verbatim>\<open>F.log_softmax\<close>,
    \<^verbatim>\<open>F.kl_div\<close>) are modelled after the documented behaviour of NumPy and PyTorch.
\<close>

datatype error = ValueError | IndexError | RuntimeError | ZeroDivisionError

subsection \<open>NumPy: the pieces of the schedule\<close>

text \<open>
  \<^verbatim>\<open>np.linspace(start, stop, num)\<close> with the default \<^verbatim>\<open>endpoint=True\<close>: a negative
  \<^verbatim>\<open>num\<close> raises \<^verbatim>\<open>ValueError\<close>; otherwise \<^verbatim>\<open>div = num - 1\<close>, the samples are
  \<^verbatim>\<open>arange(0, num) * step + start\<close> with \<^verbatim>\<open>step = (stop - start) / div\<close> when
  \<^verbatim>\<open>div > 0\<close> (and \<^verbatim>\<open>arange(0, num) * (stop - start) + start\<close> otherwise), and the
  last sample is overwritten with \<^verbatim>\<open>stop\<close> when \<^verbatim>\<open>num > 1\<close>.
\<close>

definition np_linspace :: "real \<Rightarrow> real \<Rightarrow> int \<Rightarrow> error + real list" where
  "np_linspace start stop num =
     (if num < 0 then Inl ValueError
      else
        let dv = num - 1;
            delta = stop - start;
            y0 = map real [0..<nat num];
            y1 = (if dv > 0 then map (\<lambda>v. v * (delta / real_of_int dv)) y0
                  else map (\<lambda>v. v * delta) y0);
            y2 = map (\<lambda>v. v + start) y1
        in Inr (if num > 1 then y2[nat num - 1 := stop] else y2))"

text \<open>\<^verbatim>\<open>np.ones(n)\<close>: a negative dimension raises \<^verbatim>\<open>ValueError\<close>.\<close>

definition np_ones :: "int \<Rightarrow> error + real list" where
  "np_ones n = (if n < 0 then Inl ValueError else Inr (replicate (nat n) 1))"

text \<open>
  \<^verbatim>\<open>a[i]\<close> for a one-dimensional array and a Python integer: an index in
  \<open>[-len, 0)\<close> counts from the end, an index outside \<open>[-len, len)\<close> raises
  \<^verbatim>\<open>IndexError\<close>.
\<close>

definition np_getitem :: "real list \<Rightarrow> int \<Rightarrow> error + real" where
  "np_getitem a i =
     (let n = int (length a);
          j = (if i < 0 then i + n else i)
      in if 0 \<le> j \<and> j < n then Inr (a ! nat j) else Inl IndexError)"

subsection \<open>The object and its constructor\<close>

record DistillLoss =
  student_temp :: real
  n_crops :: int
  teacher_temp_schedule :: "real list"

text \<open>
  \<^verbatim>\<open>__init__\<close>: the arguments of \<^verbatim>\<open>np.concatenate\<close> are evaluated left to right, so
  an error of \<^verbatim>\<open>np.linspace\<close> comes before one of \<^verbatim>\<open>np.ones\<close>.
\<close>

definition DistillLoss_init ::
  "int \<Rightarrow> int \<Rightarrow> int \<Rightarrow> real \<Rightarrow> real \<Rightarrow> real \<Rightarrow> error + DistillLoss" where
  "DistillLoss_init warmup_teacher_temp_epochs n_epochs n_crops' warmup_teacher_temp
       teacher_temp student_temp' =
     (case np_linspace warmup_teacher_temp teacher_temp warmup_teacher_temp_epochs of
        Inl e \<Rightarrow> Inl e
      | Inr ramp \<Rightarrow>
          (case np_ones (n_epochs - warmup_teacher_temp_epochs) of
             Inl e \<Rightarrow> Inl e
           | Inr ones \<Rightarrow>
               Inr \<lparr>student_temp = student_temp',
                    n_crops = n_crops',
                    teacher_temp_schedule = ramp @ map (\<lambda>v. v * teacher_temp) ones\<rparr>))"

subsection \<open>PyTorch: two-dimensional tensors\<close>

text \<open>
  The outputs are matrices of shape \<open>(bsz * n_views, classes)\<close>. A tensor is its
  number of columns together with the list of its rows; it is well formed when every
  row has that many entries. The number of columns is kept apart so that a tensor
  without rows still has a shape.
\<close>

record tensor =
  ncols :: nat
  rows :: "real list list"

definition nrows :: "tensor \<Rightarrow> nat" where
  "nrows t = length (rows t)"

definition wf_tensor :: "tensor \<Rightarrow> bool" where
  "wf_tensor t = list_all (\<lambda>r. length r = ncols t) (rows t)"

text \<open>\<^verbatim>\<open>t / c\<close> for a tensor and a scalar.\<close>

definition tensor_div :: "tensor \<Rightarrow> real \<Rightarrow> tensor" where
  "tensor_div t c = t\<lparr>rows := map (map (\<lambda>x. x / c)) (rows t)\<rparr>"

text \<open>\<^verbatim>\<open>t.narrow(0, start, len)\<close>: the rows \<open>start, \<dots>, start + len - 1\<close>.\<close>

definition narrow :: "tensor \<Rightarrow> nat \<Rightarrow> nat \<Rightarrow> tensor" where
  "narrow t start len = t\<lparr>rows := take len (drop start (rows t))\<rparr>"

text \<open>
  \<^verbatim>\<open>t.split(split_size)\<close> along dimension 0: \<open>max (ceil (dim_size / split_size)) 1\<close>
  pieces of \<open>split_size\<close> rows, the last one holding what is left.
\<close>

definition tensor_split :: "tensor \<Rightarrow> nat \<Rightarrow> tensor list" where
  "tensor_split t split_size =
     (let dim_size = nrows t;
          num_splits = (if split_size \<noteq> 0
                        then max ((dim_size + split_size - 1) div split_size) 1 else 1);
          last_split_size = split_size - (split_size * num_splits - dim_size)
      in map (\<lambda>i. narrow t (i * split_size)
                    (if i < num_splits - 1 then split_size else last_split_size))
             [0..<num_splits])"

text \<open>
  \<^verbatim>\<open>t.chunk(chunks)\<close> along dimension 0: \<^verbatim>\<open>chunks <= 0\<close> raises \<^verbatim>\<open>RuntimeError\<close>;
  otherwise the tensor is split into pieces of \<open>ceil (dim_size / chunks)\<close> rows, which
  may give fewer than \<^verbatim>\<open>chunks\<close> pieces and a shorter last piece. A tensor without
  rows gives \<^verbatim>\<open>chunks\<close> empty pieces.
\<close>

definition chunk :: "tensor \<Rightarrow> int \<Rightarrow> error + tensor list" where
  "chunk t chunks =
     (if chunks \<le> 0 then Inl RuntimeError
      else
        let dim_size = nrows t;
            k = nat chunks;
            split_size = (dim_size + k - 1) div k
        in if split_size = 0 \<and> dim_size = 0 then Inr (replicate k (narrow t 0 0))
           else Inr (tensor_split t split_size))"

text \<open>\<^verbatim>\<open>F.softmax(t, dim=-1)\<close> and \<^verbatim>\<open>F.log_softmax(t, dim=-1)\<close>, row by row.\<close>

definition softmax_row :: "real list \<Rightarrow> real list" where
  "softmax_row xs = map (\<lambda>x. exp x / sum_list (map exp xs)) xs"

definition log_softmax_row :: "real list \<Rightarrow> real list" where
  "log_softmax_row xs = map (\<lambda>x. ln (exp x / sum_list (map exp xs))) xs"

definition softmax :: "tensor \<Rightarrow> tensor" where
  "softmax t = t\<lparr>rows := map softmax_row (rows t)\<rparr>"

definition log_softmax :: "tensor \<Rightarrow> tensor" where
  "log_softmax t = t\<lparr>rows := map log_softmax_row (rows t)\<rparr>"

text \<open>
  \<^verbatim>\<open>F.kl_div(input, target, reduction='batchmean')\<close> computes the pointwise tensor
  \<^verbatim>\<open>xlogy(target, target) - target * input\<close> under broadcasting (a dimension of size
  1 is repeated; sizes that differ otherwise raise \<^verbatim>\<open>RuntimeError\<close>), sums all its
  entries and divides by \<^verbatim>\<open>input.size(0)\<close>.
\<close>

definition xlogy :: "real \<Rightarrow> real \<Rightarrow> real" where
  "xlogy x y = (if x = 0 then 0 else x * ln y)"

definition broadcast_dim :: "nat \<Rightarrow> nat \<Rightarrow> nat option" where
  "broadcast_dim m n =
     (if m = n then Some m else if m = 1 then Some n else if n = 1 then Some m else None)"

definition expand :: "tensor \<Rightarrow> nat \<Rightarrow> nat \<Rightarrow> tensor" where
  "expand t R C =
     \<lparr>ncols = C,
      rows = map (\<lambda>r. if ncols t = C then r else replicate C (hd r))
                 (if nrows t = R then rows t else replicate R (hd (rows t)))\<rparr>"

definition kl_div :: "tensor \<Rightarrow> tensor \<Rightarrow> error + real" where
  "kl_div input target =
     (case broadcast_dim (nrows target) (nrows input) of
        None \<Rightarrow> Inl RuntimeError
      | Some R \<Rightarrow>
          (case broadcast_dim (ncols target) (ncols input) of
             None \<Rightarrow> Inl RuntimeError
           | Some C \<Rightarrow>
               let t = expand target R C;
                   x = expand input R C;
                   output = map2 (\<lambda>tr xr. map2 (\<lambda>tv xv. xlogy tv tv - tv * xv) tr xr)
                                 (rows t) (rows x);
                   reduced = sum_list (map sum_list output)
               in Inr (reduced / real (nrows input))))"

subsection \<open>The loss\<close>

text \<open>
  One pass through the body of the inner loop for \<open>i \<noteq> j\<close>: \<^verbatim>\<open>student_outs[i]\<close> and
  \<^verbatim>\<open>teacher_outs[j]\<close> index tuples, so a position beyond the end raises
  \<^verbatim>\<open>IndexError\<close>.
\<close>

definition pair_term :: "tensor list \<Rightarrow> tensor list \<Rightarrow> nat \<Rightarrow> nat \<Rightarrow> error + real" where
  "pair_term student_outs teacher_outs i j =
     (if i < length student_outs then
        (if j < length teacher_outs
         then kl_div (log_softmax (student_outs ! i)) (teacher_outs ! j)
         else Inl IndexError)
      else Inl IndexError)"

text \<open>
  The two \<^verbatim>\<open>for\<close> loops thread the pair \<^verbatim>\<open>(loss, n_terms)\<close>; an exception leaves
  both loops.
\<close>

fun inner_loop ::
  "tensor list \<Rightarrow> tensor list \<Rightarrow> nat \<Rightarrow> nat list \<Rightarrow> real \<times> nat \<Rightarrow> error + real \<times> nat" where
  "inner_loop student_outs teacher_outs i [] acc = Inr acc"
| "inner_loop student_outs teacher_outs i (j # js) (loss, n_terms) =
     (if i = j then inner_loop student_outs teacher_outs i js (loss, n_terms)
      else
        (case pair_term student_outs teacher_outs i j of
           Inl e \<Rightarrow> Inl e
         | Inr v \<Rightarrow> inner_loop student_outs teacher_outs i js (loss + v, n_terms + 1)))"

fun outer_loop ::
  "tensor list \<Rightarrow> tensor list \<Rightarrow> nat list \<Rightarrow> nat list \<Rightarrow> real \<times> nat \<Rightarrow> error + real \<times> nat" where
  "outer_loop student_outs teacher_outs js [] acc = Inr acc"
| "outer_loop student_outs teacher_outs js (i # is) acc =
     (case inner_loop student_outs teacher_outs i js acc of
        Inl e \<Rightarrow> Inl e
      | Inr acc' \<Rightarrow> outer_loop student_outs teacher_outs js is acc')"

text \<open>\<^verbatim>\<open>range(n)\<close> for a Python integer: empty when \<open>n \<le> 0\<close>.\<close>

definition py_range :: "int \<Rightarrow> nat list" where
  "py_range n = [0..<nat n]"

text \<open>
  Lines 52 to 69 of \<^verbatim>\<open>forward\<close>, up to the end of the loops: the value is the final
  \<^verbatim>\<open>(loss, n_terms)\<close>. \<^verbatim>\<open>detach\<close> does not change the values of a tensor.
\<close>

definition accumulate :: "DistillLoss \<Rightarrow> tensor \<Rightarrow> tensor \<Rightarrow> int \<Rightarrow> error + real \<times> nat" where
  "accumulate self student_outputs teacher_outputs epoch =
     (case chunk (tensor_div student_outputs (student_temp self)) (n_crops self) of
        Inl e \<Rightarrow> Inl e
      | Inr student_outs \<Rightarrow>
          (case np_getitem (teacher_temp_schedule self) epoch of
             Inl e \<Rightarrow> Inl e
           | Inr temp \<Rightarrow>
               (case chunk (softmax (tensor_div teacher_outputs temp)) (n_crops self) of
                  Inl e \<Rightarrow> Inl e
                | Inr teacher_outs \<Rightarrow>
                    outer_loop student_outs teacher_outs (py_range (n_crops self))
                      (py_range (n_crops self)) (0, 0))))"

text \<open>
  \<^verbatim>\<open>return loss / n_terms\<close>: when no term was accumulated both are the Python
  integer 0 and the division raises \<^verbatim>\<open>ZeroDivisionError\<close>.
\<close>

definition forward :: "DistillLoss \<Rightarrow> tensor \<Rightarrow> tensor \<Rightarrow> int \<Rightarrow> error + real" where
  "forward self student_outputs teacher_outputs epoch =
     (case accumulate self student_outputs teacher_outputs epoch of
        Inl e \<Rightarrow> Inl e
      | Inr (loss, n_terms) \<Rightarrow>
          if n_terms = 0 then Inl ZeroDivisionError else Inr (loss / real n_terms))"

subsection \<open>Calls that respect the documented shapes\<close>

text \<open>
  The contract of \<^verbatim>\<open>forward\<close>: at least two crops, positive temperatures, an epoch
  inside the schedule, and two well-formed matrices of the same shape
  \<open>(n_crops * batch_size, classes)\<close> with a non-empty batch.
\<close>

definition valid_call :: "DistillLoss \<Rightarrow> tensor \<Rightarrow> tensor \<Rightarrow> int \<Rightarrow> nat \<Rightarrow> bool" where
  "valid_call self student_outputs teacher_outputs epoch batch_size \<longleftrightarrow>
     2 \<le> n_crops self \<and> 0 < student_temp self \<and>
     list_all (\<lambda>temp. 0 < temp) (teacher_temp_schedule self) \<and>
     0 \<le> epoch \<and> epoch < int (length (teacher_temp_schedule self)) \<and>
     wf_tensor student_outputs \<and> wf_tensor teacher_outputs \<and>
     ncols student_outputs = ncols teacher_outputs \<and>
     0 < batch_size \<and>
     nrows student_outputs = nat (n_crops self) * batch_size \<and>
     nrows teacher_outputs = nat (n_crops self) * batch_size"

text \<open>
  In such a call \<^verbatim>\<open>student_outs[i]\<close> holds the rows \<open>i * batch_size, \<dots>\<close> of the scaled
  student outputs and \<^verbatim>\<open>teacher_outs[j]\<close> the rows \<open>j * batch_size, \<dots>\<close> of the teacher
  probabilities; \<open>pair_value\<close> is what the loop body adds to \<^verbatim>\<open>loss\<close> for the pair
  \<open>(i, j)\<close>.
\<close>

definition student_block :: "DistillLoss \<Rightarrow> tensor \<Rightarrow> nat \<Rightarrow> nat \<Rightarrow> tensor" where
  "student_block self student_outputs batch_size i =
     narrow (tensor_div student_outputs (student_temp self)) (i * batch_size) batch_size"

definition teacher_block :: "DistillLoss \<Rightarrow> tensor \<Rightarrow> int \<Rightarrow> nat \<Rightarrow> nat \<Rightarrow> tensor" where
  "teacher_block self teacher_outputs epoch batch_size j =
     narrow (softmax (tensor_div teacher_outputs (teacher_temp_schedule self ! nat epoch)))
       (j * batch_size) batch_size"

definition pair_value ::
  "DistillLoss \<Rightarrow> tensor \<Rightarrow> tensor \<Rightarrow> int \<Rightarrow> nat \<Rightarrow> nat \<Rightarrow> nat \<Rightarrow> real" where
  "pair_value self student_outputs teacher_outputs epoch batch_size i j =
     projr (kl_div (log_softmax (student_block self student_outputs batch_size i))
                   (teacher_block self teacher_outputs epoch batch_size j))"

text \<open>
  The pairwise term in the words of the specification and of the comment on line 68:
  the sum over the classes of \<open>- teacher_probs * log_softmax student\<close>, averaged over
  the rows of the block.
\<close>

definition cross_entropy_batchmean :: "tensor \<Rightarrow> tensor \<Rightarrow> real" where
  "cross_entropy_batchmean student_block' teacher_probs =
     sum_list (map sum_list
        (map2 (\<lambda>tr xr. map2 (\<lambda>tv xv. - tv * xv) tr xr)
           (rows teacher_probs) (rows (log_softmax student_block'))))
     / real (nrows student_block')"

text \<open>Adding the constant \<open>c\<close> to every entry of row \<open>r\<close>.\<close>

definition shift_row :: "tensor \<Rightarrow> nat \<Rightarrow> real \<Rightarrow> tensor" where
  "shift_row t r c = t\<lparr>rows := (rows t)[r := map (\<lambda>x. x + c) (rows t ! r)]\<rparr>"

text \<open>
  Reordering the \<open>n\<close> row-blocks of \<open>b\<close> rows each: block \<open>i\<close> of the result is block
  \<open>p i\<close> of the argument.
\<close>

definition permute_blocks :: "(nat \<Rightarrow> nat) \<Rightarrow> nat \<Rightarrow> nat \<Rightarrow> tensor \<Rightarrow> tensor" where
  "permute_blocks p n b t =
     t\<lparr>rows := concat (map (\<lambda>i. take b (drop (p i * b) (rows t))) [0..<n])\<rparr>"

section \<open>Evaluation on explicit inputs\<close>

lemma upt_0_2: "[0..<2] = [0, 1::nat]"
  by (simp add: numeral_2_eq_2)

lemma replicate_2: "replicate 2 x = [x, x]"
  by (simp add: numeral_2_eq_2)

lemma nrows_explicit:
  "nrows \<lparr>ncols = C, rows = [r1]\<rparr> = 1"
  "nrows \<lparr>ncols = C, rows = [r1, r2]\<rparr> = 2"
  "nrows \<lparr>ncols = C, rows = [r1, r2, r3]\<rparr> = 3"
  by (simp_all add: nrows_def)

lemmas forward_eval =
  forward_def accumulate_def chunk_def nrows_explicit tensor_split_def narrow_def Let_def
  tensor_div_def softmax_def softmax_row_def np_getitem_def py_range_def pair_term_def
  kl_div_def log_softmax_def log_softmax_row_def broadcast_dim_def expand_def xlogy_def
  upt_0_2 replicate_2

section \<open>The schedule\<close>

lemma np_linspace_length:
  "np_linspace a b w = Inr ys \<Longrightarrow> length ys = nat w"
  by (auto simp: np_linspace_def Let_def split: if_splits)

lemma np_linspace_nth:
  assumes "np_linspace a b w = Inr ys" and "2 \<le> w" and "k < nat w"
  shows "ys ! k = (if k = nat w - 1 then b else a + real k * ((b - a) / real_of_int (w - 1)))"
  using assms by (auto simp: np_linspace_def Let_def nth_list_update split: if_splits)

lemma np_linspace_one: "np_linspace a b 1 = Inr [a]"
  by (simp add: np_linspace_def)

lemma init_schedule:
  assumes "0 \<le> w" and "w \<le> E"
  shows "\<exists>ramp. np_linspace a b w = Inr ramp \<and>
           DistillLoss_init w E n a b st =
             Inr \<lparr>student_temp = st, n_crops = n,
                  teacher_temp_schedule = ramp @ replicate (nat (E - w)) b\<rparr>"
proof -
  obtain ramp where r: "np_linspace a b w = Inr ramp"
    using assms(1) by (auto simp: np_linspace_def Let_def)
  have o: "np_ones (E - w) = Inr (replicate (nat (E - w)) 1)"
    using assms(2) by (simp add: np_ones_def)
  show ?thesis
    using r o by (simp add: DistillLoss_init_def)
qed

text \<open>The objects used as explicit inputs below are what the constructor builds.\<close>

lemma constructed_examples:
  "DistillLoss_init 2 2 2 (7/100) (4/100) (1/10) =
     Inr \<lparr>student_temp = 1/10, n_crops = 2, teacher_temp_schedule = [7/100, 4/100]\<rparr>"
  "DistillLoss_init 2 2 3 (7/100) (4/100) (1/10) =
     Inr \<lparr>student_temp = 1/10, n_crops = 3, teacher_temp_schedule = [7/100, 4/100]\<rparr>"
  "DistillLoss_init 1 3 2 (7/100) (4/100) (1/10) =
     Inr \<lparr>student_temp = 1/10, n_crops = 2, teacher_temp_schedule = [7/100, 4/100, 4/100]\<rparr>"
  by (simp_all add: DistillLoss_init_def np_linspace_def np_ones_def upt_0_2 numeral_2_eq_2)

text \<open>
  Claim C2, as the code has it. For \<open>1 \<le> w \<le> E\<close> the constructor succeeds, the
  schedule has \<open>E\<close> entries, entry \<open>0\<close> is the warm-up temperature \<open>a\<close> and every
  entry from \<open>w\<close> on is the final temperature \<open>b\<close>. When \<open>w \<ge> 2\<close> the first \<open>w\<close>
  entries are the linear ramp \<open>a + k * (b - a) / (w - 1)\<close>, which ends in \<open>b\<close> at
  \<open>w - 1\<close>. (For \<open>w = 1\<close> the ramp is the single entry \<open>a\<close>.)
\<close>

theorem schedule_shape:
  assumes "1 \<le> w" and "w \<le> E"
  shows "\<exists>self. DistillLoss_init w E n a b st = Inr self \<and>
           length (teacher_temp_schedule self) = nat E \<and>
           teacher_temp_schedule self ! 0 = a \<and>
           (\<forall>e. nat w \<le> e \<and> e < nat E \<longrightarrow> teacher_temp_schedule self ! e = b) \<and>
           (2 \<le> w \<longrightarrow>
              teacher_temp_schedule self ! (nat w - 1) = b \<and>
              (\<forall>k < nat w. teacher_temp_schedule self ! k
                    = a + real k * ((b - a) / real_of_int (w - 1))))"
proof -
  from assms have w0: "0 \<le> w" by simp
  obtain ramp where r: "np_linspace a b w = Inr ramp"
    and i: "DistillLoss_init w E n a b st =
             Inr \<lparr>student_temp = st, n_crops = n,
                  teacher_temp_schedule = ramp @ replicate (nat (E - w)) b\<rparr>"
    using init_schedule [OF w0 assms(2)] by blast
  have len: "length ramp = nat w"
    using r by (rule np_linspace_length)
  have first: "ramp ! 0 = a"
  proof (cases "w = 1")
    case True
    with r show ?thesis by (auto simp: np_linspace_one)
  next
    case False
    with assms(1) have "2 \<le> w" by simp
    from np_linspace_nth [OF r this, of 0] this show ?thesis by (auto split: if_splits)
  qed
  have tail: "\<And>e. nat w \<le> e \<Longrightarrow> e < nat E \<Longrightarrow> (ramp @ replicate (nat (E - w)) b) ! e = b"
    using len assms by (simp add: nth_append nat_diff_distrib)
  have ramp_lin: "ramp ! k = a + real k * ((b - a) / real_of_int (w - 1))"
    if "2 \<le> w" and "k < nat w" for k
  proof -
    have "real (nat w - 1) * ((b - a) / real_of_int (w - 1)) = b - a"
      using that(1) by (simp add: of_nat_diff)
    with np_linspace_nth [OF r that] show ?thesis by auto
  qed
  have ramp_end: "ramp ! (nat w - 1) = b" if "2 \<le> w"
    using np_linspace_nth [OF r that, of "nat w - 1"] that by simp
  show ?thesis
    using assms len first tail ramp_lin ramp_end i by (auto simp: nth_append)
qed

theorem schedule_shape_witness:
  "(1::int) \<le> 3 \<and> (3::int) \<le> 5 \<and>
   (\<exists>self. DistillLoss_init 3 5 2 (7/100) (4/100) (1/10) = Inr self \<and>
      length (teacher_temp_schedule self) = 5 \<and>
      teacher_temp_schedule self ! 0 = 7/100 \<and>
      teacher_temp_schedule self ! 1 = 7/100 + 1 * ((4/100 - 7/100) / 2) \<and>
      teacher_temp_schedule self ! 2 = 4/100 \<and>
      teacher_temp_schedule self ! 4 = 4/100)"
proof -
  from schedule_shape [of 3 5 2 "7/100" "4/100" "1/10"]
  obtain self where s: "DistillLoss_init 3 5 2 (7/100) (4/100) (1/10) = Inr self"
    "length (teacher_temp_schedule self) = nat 5"
    "teacher_temp_schedule self ! 0 = 7/100"
    "\<forall>e. nat 3 \<le> e \<and> e < nat 5 \<longrightarrow> teacher_temp_schedule self ! e = 4/100"
    "teacher_temp_schedule self ! (nat 3 - 1) = 4/100"
    "\<forall>k < nat 3. teacher_temp_schedule self ! k
        = 7/100 + real k * ((4/100 - 7/100) / real_of_int (3 - 1))"
    by auto
  from s(4) have "teacher_temp_schedule self ! 4 = 4/100" by simp
  moreover from s(6) have "teacher_temp_schedule self ! 1 = 7/100 + 1 * ((4/100 - 7/100) / 2)"
    by simp
  moreover from s(5) have "teacher_temp_schedule self ! 2 = 4/100"
    by (simp add: numeral_3_eq_3 numeral_2_eq_2)
  ultimately show ?thesis using s(1,2,3) by simp
qed

text \<open>
  Claim C2 as it is written asks for \<open>schedule[w - 1] = b\<close> from \<open>w = 1\<close> on. With one
  warm-up epoch \<^verbatim>\<open>np.linspace(a, b, 1)\<close> is \<open>[a]\<close>, so the entry at \<open>w - 1 = 0\<close> is the
  warm-up temperature and not the final one.
\<close>

theorem schedule_one_warmup_epoch:
  "DistillLoss_init 1 3 2 (7/100) (4/100) (1/10) =
     Inr \<lparr>student_temp = 1/10, n_crops = 2, teacher_temp_schedule = [7/100, 4/100, 4/100]\<rparr>
   \<and> [7/100, 4/100, 4/100] ! (nat 1 - 1) \<noteq> (4/100 :: real)"
  by (simp add: DistillLoss_init_def np_linspace_def np_ones_def numeral_2_eq_2)

text \<open>
  Claim C6. When the warm-up is longer than the training, \<open>n_epochs <
  warmup_teacher_temp_epochs\<close>, the constructor raises \<^verbatim>\<open>ValueError\<close> and no object, hence
  no truncated or empty schedule, is produced: either \<^verbatim>\<open>np.linspace\<close> rejects a
  negative number of samples or \<^verbatim>\<open>np.ones\<close> rejects the negative length of the tail.
\<close>

theorem init_rejects_long_warmup:
  assumes "n_epochs < warmup_teacher_temp_epochs"
  shows "DistillLoss_init warmup_teacher_temp_epochs n_epochs n a b st = Inl ValueError"
  using assms by (simp add: DistillLoss_init_def np_linspace_def np_ones_def Let_def)

theorem init_rejects_long_warmup_witness:
  "(3::int) < 5 \<and> DistillLoss_init 5 3 2 (7/100) (4/100) (1/10) = Inl ValueError"
  using init_rejects_long_warmup [of 3 5 2 "7/100" "4/100" "1/10"] by simp

section \<open>The epoch lookup\<close>

lemma chunk_pos:
  "0 < k \<Longrightarrow> chunk t k =
     Inr (if nrows t = 0 then replicate (nat k) (narrow t 0 0)
          else tensor_split t ((nrows t + nat k - 1) div nat k))"
  by (auto simp: chunk_def Let_def)

lemma forward_epoch_only_via_lookup:
  "np_getitem (teacher_temp_schedule self) e = np_getitem (teacher_temp_schedule self) e'
     \<Longrightarrow> forward self S T e = forward self S T e'"
  by (simp add: forward_def accumulate_def cong: sum.case_cong)

text \<open>
  Claim C3, as the code has it. Let \<open>E\<close> be the length of the schedule and let
  \<^verbatim>\<open>n_crops\<close> be positive (so that \<^verbatim>\<open>chunk\<close> on line 53 does not raise first). An epoch
  below \<open>-E\<close> or at least \<open>E\<close> makes \<^verbatim>\<open>forward\<close> raise \<^verbatim>\<open>IndexError\<close>. An epoch in
  \<open>[0, E)\<close> reads \<open>schedule[epoch]\<close>. An epoch in \<open>[-E, 0)\<close> is not an error: the lookup
  counts from the end and reads \<open>schedule[epoch + E]\<close>, and the call behaves as the call
  with \<open>epoch + E\<close>.
\<close>

theorem epoch_lookup:
  assumes "0 < n_crops self" and "E = int (length (teacher_temp_schedule self))"
  shows "(epoch < - E \<or> E \<le> epoch \<longrightarrow> forward self S T epoch = Inl IndexError)
       \<and> (0 \<le> epoch \<and> epoch < E \<longrightarrow>
            np_getitem (teacher_temp_schedule self) epoch
              = Inr (teacher_temp_schedule self ! nat epoch))
       \<and> (- E \<le> epoch \<and> epoch < 0 \<longrightarrow>
            np_getitem (teacher_temp_schedule self) epoch
              = Inr (teacher_temp_schedule self ! nat (epoch + E))
            \<and> forward self S T epoch = forward self S T (epoch + E))"
proof (intro conjI impI)
  assume out: "epoch < - E \<or> E \<le> epoch"
  have g: "np_getitem (teacher_temp_schedule self) epoch = Inl IndexError"
    using out assms(2) by (auto simp: np_getitem_def Let_def)
  obtain ss where "chunk (tensor_div S (student_temp self)) (n_crops self) = Inr ss"
    using chunk_pos [OF assms(1)] by blast
  then show "forward self S T epoch = Inl IndexError"
    using g by (simp add: forward_def accumulate_def)
next
  assume "0 \<le> epoch \<and> epoch < E"
  then show "np_getitem (teacher_temp_schedule self) epoch
              = Inr (teacher_temp_schedule self ! nat epoch)"
    using assms(2) by (simp add: np_getitem_def Let_def)
next
  assume neg: "- E \<le> epoch \<and> epoch < 0"
  then show "np_getitem (teacher_temp_schedule self) epoch
              = Inr (teacher_temp_schedule self ! nat (epoch + E))"
    using assms(2) by (simp add: np_getitem_def Let_def)
next
  assume neg: "- E \<le> epoch \<and> epoch < 0"
  then have "np_getitem (teacher_temp_schedule self) epoch
           = np_getitem (teacher_temp_schedule self) (epoch + E)"
    using assms(2) by (simp add: np_getitem_def Let_def)
  then show "forward self S T epoch = forward self S T (epoch + E)"
    by (rule forward_epoch_only_via_lookup)
qed

theorem epoch_lookup_witness:
  "forward \<lparr>student_temp = 1/10, n_crops = 2, teacher_temp_schedule = [7/100, 4/100, 4/100]\<rparr>
      \<lparr>ncols = 2, rows = [[0, 0], [0, 0]]\<rparr> \<lparr>ncols = 2, rows = [[0, 0], [0, 0]]\<rparr> 3
     = Inl IndexError
   \<and> np_getitem [7/100, 4/100, 4/100] 0 = Inr (7/100)
   \<and> np_getitem [7/100, 4/100, 4/100] (-2) = Inr (4/100)"
  using
    epoch_lookup [of "\<lparr>student_temp = 1/10, n_crops = 2,
                        teacher_temp_schedule = [7/100, 4/100, 4/100]\<rparr>" 3 3
      "\<lparr>ncols = 2, rows = [[0, 0], [0, 0]]\<rparr>" "\<lparr>ncols = 2, rows = [[0, 0], [0, 0]]\<rparr>"]
    epoch_lookup [of "\<lparr>student_temp = 1/10, n_crops = 2,
                        teacher_temp_schedule = [7/100, 4/100, 4/100]\<rparr>" 3 0
      "\<lparr>ncols = 2, rows = [[0, 0], [0, 0]]\<rparr>" "\<lparr>ncols = 2, rows = [[0, 0], [0, 0]]\<rparr>"]
    epoch_lookup [of "\<lparr>student_temp = 1/10, n_crops = 2,
                        teacher_temp_schedule = [7/100, 4/100, 4/100]\<rparr>" 3 "-2"
      "\<lparr>ncols = 2, rows = [[0, 0], [0, 0]]\<rparr>" "\<lparr>ncols = 2, rows = [[0, 0], [0, 0]]\<rparr>"]
  by simp

text \<open>
  Claim C3 as it is written asks for an index error at every negative epoch. With a
  schedule of three epochs the call at epoch \<open>-1\<close> returns a loss, computed with the
  last temperature of the schedule.
\<close>

theorem negative_epoch_wraps:
  "forward \<lparr>student_temp = 1/10, n_crops = 2, teacher_temp_schedule = [7/100, 4/100, 4/100]\<rparr>
      \<lparr>ncols = 2, rows = [[0, 0], [0, 0]]\<rparr> \<lparr>ncols = 2, rows = [[0, 0], [0, 0]]\<rparr> (-1) = Inr 0
   \<and> np_getitem [7/100, 4/100, 4/100] (-1) = Inr (4/100)"
  by (simp add: forward_eval)

section \<open>The two loops\<close>

lemma inner_loop_ok:
  assumes "\<forall>j\<in>set js. j \<noteq> i \<longrightarrow> \<not> isl (pair_term ss ts i j)"
  shows "inner_loop ss ts i js (l, c) =
           Inr (l + (\<Sum>j\<leftarrow>filter (\<lambda>j. j \<noteq> i) js. projr (pair_term ss ts i j)),
                c + length (filter (\<lambda>j. j \<noteq> i) js))"
  using assms
proof (induction js arbitrary: l c)
  case Nil
  then show ?case by simp
next
  case (Cons j js)
  show ?case
  proof (cases "i = j")
    case True
    with Cons show ?thesis by simp
  next
    case False
    with Cons.prems obtain v where v: "pair_term ss ts i j = Inr v"
      by (cases "pair_term ss ts i j") auto
    from Cons.prems have "\<forall>j\<in>set js. j \<noteq> i \<longrightarrow> \<not> isl (pair_term ss ts i j)" by simp
    from Cons.IH [OF this, of "l + v" "c + 1"] False v show ?thesis
      by (simp add: add.assoc)
  qed
qed

lemma outer_loop_ok:
  assumes "\<forall>i\<in>set is. \<forall>j\<in>set js. j \<noteq> i \<longrightarrow> \<not> isl (pair_term ss ts i j)"
  shows "outer_loop ss ts js is (l, c) =
           Inr (l + (\<Sum>i\<leftarrow>is. \<Sum>j\<leftarrow>filter (\<lambda>j. j \<noteq> i) js. projr (pair_term ss ts i j)),
                c + (\<Sum>i\<leftarrow>is. length (filter (\<lambda>j. j \<noteq> i) js)))"
  using assms
proof (induction "is" arbitrary: l c)
  case Nil
  then show ?case by simp
next
  case (Cons i "is")
  from Cons.prems have a: "\<forall>j\<in>set js. j \<noteq> i \<longrightarrow> \<not> isl (pair_term ss ts i j)"
    and b: "\<forall>i\<in>set is. \<forall>j\<in>set js. j \<noteq> i \<longrightarrow> \<not> isl (pair_term ss ts i j)"
    by simp_all
  show ?case
    by (simp add: inner_loop_ok [OF a] Cons.IH [OF b] add.assoc)
qed

lemma length_filter_neq_upt:
  assumes "i < n"
  shows "length (filter (\<lambda>j. j \<noteq> i) [0..<n]) = n - 1"
proof -
  have "length (filter (\<lambda>j. j \<noteq> i) [0..<n]) = card ({j. j \<noteq> i} \<inter> set [0..<n])"
    by (simp add: distinct_length_filter)
  also have "{j. j \<noteq> i} \<inter> set [0..<n] = {0..<n} - {i}" by auto
  also have "card \<dots> = n - 1" using assms by simp
  finally show ?thesis .
qed

lemma count_pairs:
  "(\<Sum>i\<leftarrow>[0..<n]. length (filter (\<lambda>j. j \<noteq> i) [0..<n])) = n * (n - 1)"
proof -
  have "map (\<lambda>i. length (filter (\<lambda>j. j \<noteq> i) [0..<n])) [0..<n] = map (\<lambda>i. n - 1) [0..<n]"
    by (rule map_cong) (simp_all add: length_filter_neq_upt)
  then have "(\<Sum>i\<leftarrow>[0..<n]. length (filter (\<lambda>j. j \<noteq> i) [0..<n])) = (\<Sum>i\<leftarrow>[0..<n]. n - 1)"
    by (simp only:)
  also have "\<dots> = n * (n - 1)" by (simp add: sum_list_triv)
  finally show ?thesis .
qed

lemma div_ceil_blocks:
  assumes "0 < K" and "0 < (b::nat)"
  shows "(K * b + K - 1) div K = b" and "(K * b + b - 1) div b = K"
proof -
  show "(K * b + K - 1) div K = b"
    using assms by (intro div_nat_eqI) (auto simp: algebra_simps)
  show "(K * b + b - 1) div b = K"
    using assms by (intro div_nat_eqI) (auto simp: algebra_simps)
qed

lemma tensor_split_blocks:
  assumes "0 < K" and "0 < b" and "nrows t = K * b"
  shows "tensor_split t b = map (\<lambda>i. narrow t (i * b) b) [0..<K]"
proof -
  have ns: "(K * b + b - Suc 0) div b = K"
    using div_ceil_blocks(2) [OF assms(1,2)] by simp
  have l: "b - (b * K - K * b) = b"
    by (simp add: mult.commute)
  show ?thesis
    unfolding tensor_split_def Let_def assms(3)
    using assms ns l by (simp add: max_absorb1)
qed

lemma chunk_blocks:
  assumes "0 < k" and "0 < b" and "nrows t = nat k * b"
  shows "chunk t k = Inr (map (\<lambda>i. narrow t (i * b) b) [0..<nat k])"
proof -
  from assms have K: "0 < nat k" by simp
  have n0: "nrows t \<noteq> 0" using assms K by simp
  have "(nrows t + nat k - 1) div nat k = b"
    unfolding assms(3) by (rule div_ceil_blocks [OF K assms(2)])
  then show ?thesis
    using n0 by (simp add: chunk_pos [OF assms(1)] tensor_split_blocks [OF K assms(2,3)])
qed

section \<open>Blocks of a call with the documented shapes\<close>

lemma shape_simps [simp]:
  "nrows (tensor_div t c) = nrows t" "ncols (tensor_div t c) = ncols t"
  "nrows (softmax t) = nrows t" "ncols (softmax t) = ncols t"
  "nrows (log_softmax t) = nrows t" "ncols (log_softmax t) = ncols t"
  "nrows (narrow t s l) = min l (nrows t - s)" "ncols (narrow t s l) = ncols t"
  by (simp_all add: nrows_def tensor_div_def softmax_def log_softmax_def narrow_def)

lemma nrows_block:
  assumes "nrows t = K * b" and "i < K"
  shows "nrows (narrow t (i * b) b) = b"
proof -
  from assms(2) have "Suc i \<le> K" by simp
  then have "Suc i * b \<le> K * b" by (rule mult_le_mono1)
  then show ?thesis using assms(1) by simp
qed

lemma kl_div_same_shape:
  assumes "nrows x = nrows t" and "ncols x = ncols t"
  shows "kl_div x t =
           Inr (sum_list (map sum_list
                  (map2 (\<lambda>tr xr. map2 (\<lambda>tv xv. xlogy tv tv - tv * xv) tr xr)
                     (rows t) (rows x))) / real (nrows x))"
  using assms by (simp add: kl_div_def broadcast_dim_def expand_def Let_def)

lemma pair_term_blocks:
  assumes "nrows S' = K * b" and "nrows T' = K * b" and "ncols S' = ncols T'"
    and "i < K" and "j < K"
  shows "pair_term (map (\<lambda>i. narrow S' (i * b) b) [0..<K])
                   (map (\<lambda>j. narrow T' (j * b) b) [0..<K]) i j
         = kl_div (log_softmax (narrow S' (i * b) b)) (narrow T' (j * b) b)"
    and "\<not> isl (kl_div (log_softmax (narrow S' (i * b) b)) (narrow T' (j * b) b))"
proof -
  show "pair_term (map (\<lambda>i. narrow S' (i * b) b) [0..<K])
                   (map (\<lambda>j. narrow T' (j * b) b) [0..<K]) i j
         = kl_div (log_softmax (narrow S' (i * b) b)) (narrow T' (j * b) b)"
    using assms(4,5) by (simp add: pair_term_def)
  have "nrows (log_softmax (narrow S' (i * b) b)) = nrows (narrow T' (j * b) b)"
    using nrows_block [OF assms(1,4)] nrows_block [OF assms(2,5)] by (simp del: shape_simps(7) add: shape_simps(5))
  moreover have "ncols (log_softmax (narrow S' (i * b) b)) = ncols (narrow T' (j * b) b)"
    using assms(3) by simp
  ultimately show "\<not> isl (kl_div (log_softmax (narrow S' (i * b) b)) (narrow T' (j * b) b))"
    by (simp add: kl_div_same_shape)
qed

lemma accumulate_valid:
  assumes "valid_call self S T epoch b"
  shows "accumulate self S T epoch =
           Inr (\<Sum>i\<leftarrow>[0..<nat (n_crops self)].
                  \<Sum>j\<leftarrow>filter (\<lambda>j. j \<noteq> i) [0..<nat (n_crops self)].
                    pair_value self S T epoch b i j,
                nat (n_crops self) * (nat (n_crops self) - 1))"
proof -
  define K where "K = nat (n_crops self)"
  define S' where "S' = tensor_div S (student_temp self)"
  define T' where "T' = softmax (tensor_div T (teacher_temp_schedule self ! nat epoch))"
  define ss where "ss = map (\<lambda>i. narrow S' (i * b) b) [0..<K]"
  define ts where "ts = map (\<lambda>j. narrow T' (j * b) b) [0..<K]"
  from assms have k: "0 < n_crops self" and b: "0 < b"
    and nS: "nrows S' = K * b" and nT: "nrows T' = K * b" and nc: "ncols S' = ncols T'"
    and ep: "0 \<le> epoch" "epoch < int (length (teacher_temp_schedule self))"
    by (simp_all add: valid_call_def K_def S'_def T'_def)
  have cs: "chunk S' (n_crops self) = Inr ss"
    unfolding ss_def K_def using nS by (intro chunk_blocks [OF k b]) (simp add: K_def)
  have ct: "chunk T' (n_crops self) = Inr ts"
    unfolding ts_def K_def using nT by (intro chunk_blocks [OF k b]) (simp add: K_def)
  have g: "np_getitem (teacher_temp_schedule self) epoch
             = Inr (teacher_temp_schedule self ! nat epoch)"
    using ep by (simp add: np_getitem_def Let_def)
  have pt: "pair_term ss ts i j = kl_div (log_softmax (narrow S' (i * b) b)) (narrow T' (j * b) b)"
    and ok: "\<not> isl (pair_term ss ts i j)" if "i < K" "j < K" for i j
    using pair_term_blocks [OF nS nT nc that] by (simp_all add: ss_def ts_def)
  have pv: "projr (pair_term ss ts i j) = pair_value self S T epoch b i j" if "i < K" "j < K" for i j
    using pt [OF that] by (simp add: pair_value_def student_block_def teacher_block_def S'_def T'_def)
  have loop: "outer_loop ss ts [0..<K] [0..<K] (0, 0) =
      Inr (0 + (\<Sum>i\<leftarrow>[0..<K]. \<Sum>j\<leftarrow>filter (\<lambda>j. j \<noteq> i) [0..<K]. projr (pair_term ss ts i j)),
           0 + (\<Sum>i\<leftarrow>[0..<K]. length (filter (\<lambda>j. j \<noteq> i) [0..<K])))"
    by (rule outer_loop_ok) (simp add: ok)
  have sums: "(\<Sum>i\<leftarrow>[0..<K]. \<Sum>j\<leftarrow>filter (\<lambda>j. j \<noteq> i) [0..<K]. projr (pair_term ss ts i j))
            = (\<Sum>i\<leftarrow>[0..<K]. \<Sum>j\<leftarrow>filter (\<lambda>j. j \<noteq> i) [0..<K]. pair_value self S T epoch b i j)"
    by (intro arg_cong [where f = sum_list] map_cong refl) (simp add: pv)
  show ?thesis
    unfolding accumulate_def
    using cs ct g loop sums
    by (simp add: S'_def T'_def py_range_def K_def count_pairs)
qed

lemma forward_valid:
  assumes "valid_call self S T epoch b"
  shows "forward self S T epoch =
           Inr ((\<Sum>i\<leftarrow>[0..<nat (n_crops self)].
                  \<Sum>j\<leftarrow>filter (\<lambda>j. j \<noteq> i) [0..<nat (n_crops self)].
                    pair_value self S T epoch b i j)
                / real (nat (n_crops self) * (nat (n_crops self) - 1)))"
proof -
  from assms have "2 \<le> n_crops self" by (simp add: valid_call_def)
  then have "nat (n_crops self) * (nat (n_crops self) - 1) \<noteq> 0" by simp
  then show ?thesis
    unfolding forward_def accumulate_valid [OF assms] by simp
qed

text \<open>
  Claim C7. In a call with the documented shapes and \<open>n = n_crops \<ge> 2\<close>, the loops end
  with \<open>n_terms = n * (n - 1)\<close> and with \<open>loss\<close> the sum of the terms of the ordered
  pairs \<open>(i, j)\<close>, \<open>i, j < n\<close>, \<open>j \<noteq> i\<close>; and a pass of the inner loop at \<open>j = i\<close> leaves
  \<open>(loss, n_terms)\<close> as it was, whatever the blocks are.
\<close>

theorem pair_count:
  assumes "valid_call self S T epoch b"
  shows "accumulate self S T epoch =
           Inr (\<Sum>i\<leftarrow>[0..<nat (n_crops self)].
                  \<Sum>j\<leftarrow>filter (\<lambda>j. j \<noteq> i) [0..<nat (n_crops self)].
                    pair_value self S T epoch b i j,
                nat (n_crops self) * (nat (n_crops self) - 1))
         \<and> inner_loop student_outs teacher_outs i [i] acc = Inr acc"
  using accumulate_valid [OF assms] by (cases acc) simp

theorem pair_count_witness:
  "valid_call \<lparr>student_temp = 1/10, n_crops = 2, teacher_temp_schedule = [7/100, 4/100, 4/100]\<rparr>
      \<lparr>ncols = 2, rows = [[0, 0], [0, 0]]\<rparr> \<lparr>ncols = 2, rows = [[0, 0], [0, 0]]\<rparr> 0 1
   \<and> (\<exists>loss. accumulate
          \<lparr>student_temp = 1/10, n_crops = 2, teacher_temp_schedule = [7/100, 4/100, 4/100]\<rparr>
          \<lparr>ncols = 2, rows = [[0, 0], [0, 0]]\<rparr> \<lparr>ncols = 2, rows = [[0, 0], [0, 0]]\<rparr> 0
        = Inr (loss, 2))"
proof -
  have v: "valid_call
      \<lparr>student_temp = 1/10, n_crops = 2, teacher_temp_schedule = [7/100, 4/100, 4/100]\<rparr>
      \<lparr>ncols = 2, rows = [[0, 0], [0, 0]]\<rparr> \<lparr>ncols = 2, rows = [[0, 0], [0, 0]]\<rparr> 0 1"
    by (simp add: valid_call_def wf_tensor_def nrows_explicit)
  from pair_count [OF v] v show ?thesis by simp
qed

section \<open>The value of a pairwise term\<close>

text \<open>
  Claim C1 reads the accumulated term as the batch mean of the cross-entropy
  \<open>sum (- teacher_probs * log_softmax student)\<close>, as the comment on line 68 does.
  \<^verbatim>\<open>F.kl_div\<close> computes \<open>sum (teacher_probs * (log teacher_probs - log_softmax student))\<close>
  instead, which is smaller by the entropy of the teacher distribution. For two crops,
  one sample per crop, two classes and all outputs \<open>0\<close>, both distributions are uniform:
  the accumulated term and the returned loss are \<open>0\<close>, while the cross-entropy of the
  claim is \<open>ln 2\<close>.
\<close>

theorem kl_div_drops_teacher_entropy:
  "forward \<lparr>student_temp = 1/10, n_crops = 2, teacher_temp_schedule = [7/100, 4/100, 4/100]\<rparr>
      \<lparr>ncols = 2, rows = [[0, 0], [0, 0]]\<rparr> \<lparr>ncols = 2, rows = [[0, 0], [0, 0]]\<rparr> 0 = Inr 0
   \<and> pair_value \<lparr>student_temp = 1/10, n_crops = 2, teacher_temp_schedule = [7/100, 4/100, 4/100]\<rparr>
      \<lparr>ncols = 2, rows = [[0, 0], [0, 0]]\<rparr> \<lparr>ncols = 2, rows = [[0, 0], [0, 0]]\<rparr> 0 1 0 1 = 0
   \<and> cross_entropy_batchmean
       (student_block \<lparr>student_temp = 1/10, n_crops = 2, teacher_temp_schedule = [7/100, 4/100, 4/100]\<rparr>
          \<lparr>ncols = 2, rows = [[0, 0], [0, 0]]\<rparr> 1 0)
       (teacher_block \<lparr>student_temp = 1/10, n_crops = 2, teacher_temp_schedule = [7/100, 4/100, 4/100]\<rparr>
          \<lparr>ncols = 2, rows = [[0, 0], [0, 0]]\<rparr> 0 1 1) = ln 2
   \<and> (0::real) < ln 2"
  by (simp add: forward_eval pair_value_def student_block_def teacher_block_def
        cross_entropy_batchmean_def ln_div)

section \<open>Exact arithmetic: non-negativity\<close>

lemma sum_list_exp_nonneg: "0 \<le> sum_list (map exp (xs :: real list))"
  by (rule sum_list_nonneg) auto

lemma sum_list_exp_pos: "xs \<noteq> [] \<Longrightarrow> 0 < sum_list (map exp (xs :: real list))"
  by (cases xs) (simp_all add: add_pos_nonneg sum_list_exp_nonneg)

lemma sum_list_divide: "sum_list (map (\<lambda>x. f x / c) xs) = sum_list (map f xs) / (c::real)"
  by (induction xs) (simp_all add: add_divide_distrib)

lemma softmax_row_sum: "xs \<noteq> [] \<Longrightarrow> sum_list (softmax_row xs) = 1"
  using sum_list_exp_pos [of xs] by (simp add: softmax_row_def sum_list_divide)

lemma softmax_row_nonneg: "t \<in> set (softmax_row xs) \<Longrightarrow> 0 \<le> t"
  by (cases "xs = []") (auto simp: softmax_row_def intro!: divide_nonneg_nonneg sum_list_nonneg)

lemma exp_log_softmax_row: "map exp (log_softmax_row xs) = softmax_row xs"
proof (cases "xs = []")
  case True
  then show ?thesis by (simp add: log_softmax_row_def softmax_row_def)
next
  case False
  then have "0 < sum_list (map exp xs)" by (rule sum_list_exp_pos)
  then show ?thesis by (simp add: log_softmax_row_def softmax_row_def)
qed

lemma gibbs_pointwise:
  assumes "0 \<le> (t::real)"
  shows "t - exp l \<le> xlogy t t - t * l"
proof (cases "t = 0")
  case True
  then show ?thesis by (simp add: xlogy_def)
next
  case False
  with assms have t: "0 < t" by simp
  have "ln (exp l / t) \<le> exp l / t - 1"
    using t by (intro ln_le_minus_one) simp
  then have "l - ln t \<le> exp l / t - 1"
    using t by (simp add: ln_div)
  then have "t * (l - ln t) \<le> t * (exp l / t - 1)"
    using t by (intro mult_left_mono) simp_all
  then have "t * l - t * ln t \<le> exp l - t"
    using t by (simp add: algebra_simps)
  then show ?thesis using False by (simp add: xlogy_def)
qed

lemma sum_list_map2_diff:
  "length xs = length ys \<Longrightarrow>
     sum_list (map2 (\<lambda>t l. t - f l) xs ys) = sum_list xs - sum_list (map f ys :: real list)"
  by (induction xs ys rule: list_induct2) simp_all

lemma gibbs_row:
  assumes "length xs = length ys"
  shows "0 \<le> sum_list (map2 (\<lambda>tv xv. xlogy tv tv - tv * xv) (softmax_row ys) (log_softmax_row xs))"
proof -
  have len: "length (softmax_row ys) = length (log_softmax_row xs)"
    using assms by (simp add: softmax_row_def log_softmax_row_def)
  have "sum_list (softmax_row ys) - sum_list (map exp (log_softmax_row xs)) = 0"
  proof (cases "xs = []")
    case True
    with assms show ?thesis by (simp add: softmax_row_def log_softmax_row_def)
  next
    case False
    with assms have "ys \<noteq> []" by auto
    with False show ?thesis by (simp add: exp_log_softmax_row softmax_row_sum)
  qed
  then have "0 = sum_list (map2 (\<lambda>t l. t - exp l) (softmax_row ys) (log_softmax_row xs))"
    by (simp add: sum_list_map2_diff [OF len])
  also have "\<dots> \<le> sum_list (map2 (\<lambda>tv xv. xlogy tv tv - tv * xv) (softmax_row ys) (log_softmax_row xs))"
    by (rule sum_list_mono) (auto dest!: set_zip_leftD softmax_row_nonneg intro: gibbs_pointwise)
  finally show ?thesis .
qed

lemma kl_rows_nonneg:
  assumes "\<forall>r\<in>set ys_rows. length r = C" and "\<forall>r\<in>set xs_rows. length r = C"
  shows "0 \<le> sum_list (map sum_list
            (map2 (\<lambda>tr xr. map2 (\<lambda>tv xv. xlogy tv tv - tv * xv) tr xr)
               (map softmax_row ys_rows) (map log_softmax_row xs_rows)))"
proof (rule sum_list_nonneg)
  fix v
  assume "v \<in> set (map sum_list
            (map2 (\<lambda>tr xr. map2 (\<lambda>tv xv. xlogy tv tv - tv * xv) tr xr)
               (map softmax_row ys_rows) (map log_softmax_row xs_rows)))"
  then obtain y x where yx: "(y, x) \<in> set (zip ys_rows xs_rows)"
    and v: "v = sum_list (map2 (\<lambda>tv xv. xlogy tv tv - tv * xv) (softmax_row y) (log_softmax_row x))"
    by (auto simp: zip_map_map)
  from yx have "y \<in> set ys_rows" and "x \<in> set xs_rows"
    by (auto dest: set_zip_leftD set_zip_rightD)
  with assms have "length x = length y" by simp
  then show "0 \<le> v" unfolding v by (rule gibbs_row)
qed

lemma pair_value_nonneg:
  assumes "valid_call self S T epoch b" and "i < nat (n_crops self)" and "j < nat (n_crops self)"
  shows "0 \<le> pair_value self S T epoch b i j"
proof -
  define xs_rows where
    "xs_rows = take b (drop (i * b) (rows (tensor_div S (student_temp self))))"
  define ys_rows where
    "ys_rows = take b (drop (j * b)
        (rows (tensor_div T (teacher_temp_schedule self ! nat epoch))))"
  from assms(1) have wS: "wf_tensor S" and wT: "wf_tensor T" and nc: "ncols S = ncols T"
    and nS: "nrows S = nat (n_crops self) * b" and nT: "nrows T = nat (n_crops self) * b"
    and b: "0 < b"
    by (simp_all add: valid_call_def)
  have lx: "\<forall>r\<in>set xs_rows. length r = ncols S"
    using wS by (auto simp: xs_rows_def wf_tensor_def tensor_div_def list_all_iff
        dest!: in_set_takeD in_set_dropD)
  have ly: "\<forall>r\<in>set ys_rows. length r = ncols S"
    using wT nc by (auto simp: ys_rows_def wf_tensor_def tensor_div_def list_all_iff
        dest!: in_set_takeD in_set_dropD)
  have rx: "rows (log_softmax (student_block self S b i)) = map log_softmax_row xs_rows"
    by (simp add: log_softmax_def student_block_def narrow_def xs_rows_def)
  have ry: "rows (teacher_block self T epoch b j) = map softmax_row ys_rows"
    by (simp add: softmax_def teacher_block_def narrow_def ys_rows_def take_map drop_map)
  have n1: "nrows (log_softmax (student_block self S b i)) = b"
    unfolding student_block_def shape_simps(5)
    by (rule nrows_block [OF _ assms(2)]) (simp add: nS)
  have n2: "nrows (teacher_block self T epoch b j) = b"
    unfolding teacher_block_def
    by (rule nrows_block [OF _ assms(3)]) (simp add: nT)
  have c: "ncols (log_softmax (student_block self S b i)) = ncols (teacher_block self T epoch b j)"
    using nc by (simp add: student_block_def teacher_block_def)
  have "pair_value self S T epoch b i j =
      sum_list (map sum_list
            (map2 (\<lambda>tr xr. map2 (\<lambda>tv xv. xlogy tv tv - tv * xv) tr xr)
               (map softmax_row ys_rows) (map log_softmax_row xs_rows))) / real b"
    unfolding pair_value_def
    by (subst kl_div_same_shape) (simp_all only: n1 n2 c rx ry sum.sel)
  also have "0 \<le> \<dots>"
    using kl_rows_nonneg [OF ly lx] by simp
  finally show ?thesis by simp
qed

lemma total_nonneg:
  assumes "valid_call self S T epoch b"
  shows "0 \<le> (\<Sum>i\<leftarrow>[0..<nat (n_crops self)].
                  \<Sum>j\<leftarrow>filter (\<lambda>j. j \<noteq> i) [0..<nat (n_crops self)].
                    pair_value self S T epoch b i j)"
  by (intro sum_list_nonneg) (auto intro!: sum_list_nonneg pair_value_nonneg [OF assms])

text \<open>
  In exact arithmetic a call with the documented shapes returns a value that is at least
  \<open>0\<close>: every accumulated term is a Kullback-Leibler divergence between two softmax
  rows over the same classes. The inequality uses \<open>ln x \<le> x - 1\<close> for the exact
  logarithm and says nothing about the rounded result of the program.
\<close>

lemma exact_loss_nonneg:
  assumes "valid_call self S T epoch b"
  shows "\<exists>loss. forward self S T epoch = Inr loss \<and> 0 \<le> loss"
  using forward_valid [OF assms] total_nonneg [OF assms] by simp

section \<open>Exact arithmetic: shifting a row by a constant\<close>

lemma sum_list_mult_const: "sum_list (map (\<lambda>x. f x * c) xs) = sum_list (map f xs) * (c::real)"
  by (induction xs) (simp_all add: distrib_right)

lemma softmax_row_shift: "softmax_row (map (\<lambda>x. x + d) xs) = softmax_row xs"
  by (simp add: softmax_row_def comp_def exp_add sum_list_mult_const)

lemma log_softmax_row_shift: "log_softmax_row (map (\<lambda>x. x + d) xs) = log_softmax_row xs"
  by (simp add: log_softmax_row_def comp_def exp_add sum_list_mult_const)

lemma rowwise_shift:
  assumes "\<And>d xs. g (map (\<lambda>x. x + d) xs) = g xs"
  shows "map (\<lambda>row. g (map (\<lambda>x. x / temp) row)) ((rws :: real list list)[r := map (\<lambda>x. x + c) (rws ! r)])
       = map (\<lambda>row. g (map (\<lambda>x. x / temp) row)) rws"
proof (cases "r < length rws")
  case True
  have "g (map (\<lambda>x. x / temp) (map (\<lambda>x. x + c) (rws ! r))) = g (map (\<lambda>x. x + c / temp) (map (\<lambda>x. x / temp) (rws ! r)))"
    by (simp add: comp_def add_divide_distrib)
  also have "\<dots> = g (map (\<lambda>x. x / temp) (rws ! r))" by (rule assms)
  finally show ?thesis
    using True by (simp add: map_update list_update_same_conv)
next
  case False
  then show ?thesis by (simp add: list_update_beyond)
qed

lemma softmax_shift_row:
  "softmax (tensor_div (shift_row T r c) temp) = softmax (tensor_div T temp)"
  using rowwise_shift [of softmax_row temp "rows T" r c, OF softmax_row_shift]
  by (simp add: softmax_def tensor_div_def shift_row_def comp_def)

lemma log_softmax_shift_row:
  "log_softmax (tensor_div (shift_row S r c) temp) = log_softmax (tensor_div S temp)"
  using rowwise_shift [of log_softmax_row temp "rows S" r c, OF log_softmax_row_shift]
  by (simp add: log_softmax_def tensor_div_def shift_row_def comp_def)

lemma log_softmax_narrow: "log_softmax (narrow t s l) = narrow (log_softmax t) s l"
  by (simp add: log_softmax_def narrow_def take_map drop_map)

lemma tensor_split_log_softmax:
  "tensor_split (log_softmax t) c = map log_softmax (tensor_split t c)"
  unfolding tensor_split_def Let_def shape_simps(5) map_map comp_def log_softmax_narrow
  by (rule refl)

lemma chunk_log_softmax:
  "chunk (log_softmax t) k = map_sum id (map log_softmax) (chunk t k)"
  unfolding chunk_def Let_def shape_simps(5) tensor_split_log_softmax
  by (simp add: log_softmax_narrow)

lemma pair_term_cong:
  assumes "map log_softmax ss = map log_softmax ss'"
  shows "pair_term ss ts i j = pair_term ss' ts i j"
proof -
  from assms have len: "length ss = length ss'" by (rule map_eq_imp_length_eq)
  have "log_softmax (ss ! i) = log_softmax (ss' ! i)" if "i < length ss"
    using that len arg_cong [OF assms, of "\<lambda>l. l ! i"] by simp
  then show ?thesis by (simp add: pair_term_def len)
qed

lemma inner_loop_cong:
  assumes "map log_softmax ss = map log_softmax ss'"
  shows "inner_loop ss ts i js acc = inner_loop ss' ts i js acc"
proof (induction js arbitrary: acc)
  case Nil
  show ?case by simp
next
  case (Cons j js)
  obtain l c where acc: "acc = (l, c)" by (cases acc)
  show ?case
  proof (cases "i = j")
    case True
    then show ?thesis unfolding acc using Cons.IH by simp
  next
    case False
    then show ?thesis
      unfolding acc by (simp add: pair_term_cong [OF assms] Cons.IH split: sum.splits)
  qed
qed

lemma outer_loop_cong:
  assumes "map log_softmax ss = map log_softmax ss'"
  shows "outer_loop ss ts js is acc = outer_loop ss' ts js is acc"
  by (induction "is" arbitrary: acc) (simp_all add: inner_loop_cong [OF assms] split: sum.splits)

lemma accumulate_student_cong:
  assumes "log_softmax (tensor_div S (student_temp self)) = log_softmax (tensor_div S' (student_temp self))"
  shows "accumulate self S T epoch = accumulate self S' T epoch"
proof -
  have "map_sum id (map log_softmax) (chunk (tensor_div S (student_temp self)) (n_crops self))
      = map_sum id (map log_softmax) (chunk (tensor_div S' (student_temp self)) (n_crops self))"
    using assms by (simp add: chunk_log_softmax [symmetric])
  then consider (err) e where "chunk (tensor_div S (student_temp self)) (n_crops self) = Inl e"
      "chunk (tensor_div S' (student_temp self)) (n_crops self) = Inl e"
    | (ok) ss ss' where "chunk (tensor_div S (student_temp self)) (n_crops self) = Inr ss"
      "chunk (tensor_div S' (student_temp self)) (n_crops self) = Inr ss'"
      "map log_softmax ss = map log_softmax ss'"
    by (cases "chunk (tensor_div S (student_temp self)) (n_crops self)";
        cases "chunk (tensor_div S' (student_temp self)) (n_crops self)") auto
  then show ?thesis
  proof cases
    case err
    then show ?thesis by (simp add: accumulate_def)
  next
    case ok
    then show ?thesis
      by (simp add: accumulate_def outer_loop_cong [OF ok(3)] split: sum.splits)
  qed
qed

lemma forward_shift_student:
  "forward self (shift_row S r c) T epoch = forward self S T epoch"
  by (simp add: forward_def accumulate_student_cong [OF log_softmax_shift_row])

lemma forward_shift_teacher:
  "forward self S (shift_row T r c) epoch = forward self S T epoch"
  by (simp add: forward_def accumulate_def softmax_shift_row cong: sum.case_cong)

text \<open>
  In exact arithmetic, adding one constant \<open>c\<close> to every entry of a row \<open>r\<close> of the
  student outputs, or of the teacher outputs, leaves the value of the formula
  unchanged: the shift becomes the shift \<open>c / temperature\<close> of the scaled row, which
  \<open>softmax\<close> and \<open>log_softmax\<close> cancel. The cancellation is exact only without rounding.
\<close>

lemma exact_shift_invariance:
  assumes "valid_call self S T epoch b" and "r < nrows S"
  shows "\<exists>loss. forward self S T epoch = Inr loss
           \<and> forward self (shift_row S r c) T epoch = Inr loss
           \<and> forward self S (shift_row T r c) epoch = Inr loss"
  using forward_valid [OF assms(1)] by (simp add: forward_shift_student forward_shift_teacher)

section \<open>Exact arithmetic: reordering the crops\<close>

lemma pair_sum_as_set_sum:
  "(\<Sum>i\<leftarrow>[0..<K]. \<Sum>j\<leftarrow>filter (\<lambda>j. j \<noteq> i) [0..<K]. (g i j :: real))
     = (\<Sum>i<K. \<Sum>j<K. if j \<noteq> i then g i j else 0)"
  by (simp add: sum_list_map_filter' interv_sum_list_conv_sum_set_nat atLeast0LessThan)

lemma pair_sum_reindex:
  assumes "bij_betw p {..<K} {..<K}"
  shows "(\<Sum>i<K. \<Sum>j<K. if j \<noteq> i then (g (p i) (p j) :: real) else 0)
       = (\<Sum>i<K. \<Sum>j<K. if j \<noteq> i then g i j else 0)"
proof -
  have inj: "inj_on p {..<K}" using assms by (rule bij_betw_imp_inj_on)
  have "(\<Sum>i<K. \<Sum>j<K. if j \<noteq> i then g (p i) (p j) else 0)
      = (\<Sum>i<K. \<Sum>j<K. if p j \<noteq> p i then g (p i) (p j) else 0)"
    by (intro sum.cong refl) (auto dest: inj_onD [OF inj])
  also have "\<dots> = (\<Sum>i<K. \<Sum>j<K. if j \<noteq> p i then g (p i) j else 0)"
    by (intro sum.cong refl sum.reindex_bij_betw [OF assms, where g = "\<lambda>j. if j \<noteq> p i then g (p i) j else 0" for i])
  also have "\<dots> = (\<Sum>i<K. \<Sum>j<K. if j \<noteq> i then g i j else 0)"
    by (rule sum.reindex_bij_betw [OF assms, where g = "\<lambda>i. \<Sum>j<K. if j \<noteq> i then g i j else 0"])
  finally show ?thesis .
qed

lemma concat_blocks_nth:
  assumes "\<forall>k<K. length (f k) = b" and "i < K"
  shows "take b (drop (i * b) (concat (map f [0..<K]))) = f i"
  using assms
proof (induction K)
  case 0
  then show ?case by simp
next
  case (Suc K)
  have len: "length (concat (map f [0..<K])) = K * b"
    using Suc.prems(1) by (induction K) simp_all
  show ?case
  proof (cases "i < K")
    case True
    then have "Suc i * b \<le> K * b" by (intro mult_le_mono1) simp
    then have le: "i * b + b \<le> K * b" by simp
    have "take b (drop (i * b) (concat (map f [0..<K]) @ f K))
        = take b (drop (i * b) (concat (map f [0..<K])))"
      using le len by simp
    with Suc True show ?thesis by simp
  next
    case False
    with Suc.prems have "i = K" by simp
    with len Suc.prems show ?thesis by simp
  qed
qed

lemma length_concat_blocks:
  "\<forall>k<K. length (f k) = b \<Longrightarrow> length (concat (map f [0..<K])) = K * b"
  by (induction K) simp_all

lemma block_length:
  assumes "length rws = K * b" and "k < K"
  shows "length (take b (drop (k * b) rws)) = b"
proof -
  from assms(2) have "Suc k * b \<le> K * b" by (intro mult_le_mono1) simp
  then show ?thesis using assms(1) by simp
qed

lemma permuted_block_lengths:
  assumes "nrows t = K * b" and "\<forall>i<K. p i < K"
  shows "\<forall>k<K. length (take b (drop (p k * b) (rows t))) = b"
proof (intro allI impI)
  fix k assume "k < K"
  with assms(2) have "p k < K" by simp
  with assms(1) show "length (take b (drop (p k * b) (rows t))) = b"
    unfolding nrows_def by (rule block_length)
qed

lemma permute_blocks_shape:
  assumes "nrows t = K * b" and "\<forall>i<K. p i < K"
  shows "nrows (permute_blocks p K b t) = K * b"
    and "ncols (permute_blocks p K b t) = ncols t"
proof -
  have "\<forall>k<K. length (take b (drop (p k * b) (rows t))) = b"
    using assms by (rule permuted_block_lengths)
  then show "nrows (permute_blocks p K b t) = K * b"
    by (simp add: nrows_def permute_blocks_def length_concat_blocks)
  show "ncols (permute_blocks p K b t) = ncols t"
    by (simp add: permute_blocks_def)
qed

lemma permute_blocks_wf:
  assumes "wf_tensor t"
  shows "wf_tensor (permute_blocks p K b t)"
  using assms
  by (auto simp: wf_tensor_def permute_blocks_def list_all_iff dest!: in_set_takeD in_set_dropD)

lemma narrow_permute_blocks:
  assumes "nrows t = K * b" and "\<forall>i<K. p i < K" and "i < K"
  shows "narrow (permute_blocks p K b t) (i * b) b = narrow t (p i * b) b"
proof -
  have "\<forall>k<K. length (take b (drop (p k * b) (rows t))) = b"
    using assms(1,2) by (rule permuted_block_lengths)
  from concat_blocks_nth [OF this assms(3)] show ?thesis
    by (simp add: narrow_def permute_blocks_def)
qed

lemma permute_blocks_tensor_div:
  "tensor_div (permute_blocks p K b t) c = permute_blocks p K b (tensor_div t c)"
  by (simp add: tensor_div_def permute_blocks_def map_concat comp_def take_map drop_map)

lemma permute_blocks_softmax:
  "softmax (permute_blocks p K b t) = permute_blocks p K b (softmax t)"
  by (simp add: softmax_def permute_blocks_def map_concat comp_def take_map drop_map)

lemma student_block_permute:
  assumes "nrows S = K * b" and "\<forall>i<K. p i < K" and "i < K"
  shows "student_block self (permute_blocks p K b S) b i = student_block self S b (p i)"
  unfolding student_block_def permute_blocks_tensor_div
  by (rule narrow_permute_blocks [OF _ assms(2,3)]) (simp add: assms(1))

lemma teacher_block_permute:
  assumes "nrows T = K * b" and "\<forall>i<K. p i < K" and "j < K"
  shows "teacher_block self (permute_blocks p K b T) epoch b j = teacher_block self T epoch b (p j)"
  unfolding teacher_block_def permute_blocks_tensor_div permute_blocks_softmax
  by (rule narrow_permute_blocks [OF _ assms(2,3)]) (simp add: assms(1))

lemma valid_call_permute:
  assumes "valid_call self S T epoch b" and "\<forall>i<nat (n_crops self). p i < nat (n_crops self)"
  shows "valid_call self (permute_blocks p (nat (n_crops self)) b S)
           (permute_blocks p (nat (n_crops self)) b T) epoch b"
proof -
  from assms(1) have nS: "nrows S = nat (n_crops self) * b"
    and nT: "nrows T = nat (n_crops self) * b"
    by (simp_all add: valid_call_def)
  show ?thesis
    using assms(1)
    by (simp add: valid_call_def permute_blocks_wf
        permute_blocks_shape [OF nS assms(2)] permute_blocks_shape [OF nT assms(2)])
qed

text \<open>
  In exact arithmetic, reordering the \<open>n_crops\<close> row-blocks of the student outputs and
  of the teacher outputs by the same permutation \<open>p\<close> of \<open>{0, \<dots>, n_crops - 1}\<close> leaves
  the value of the formula unchanged: the sum over the ordered pairs of distinct crops
  is only reindexed. The program adds the terms in the order of the loops, and a
  rounded sum depends on that order.
\<close>

lemma exact_permutation_invariance:
  assumes "valid_call self S T epoch b"
    and "bij_betw p {..<nat (n_crops self)} {..<nat (n_crops self)}"
  shows "\<exists>loss. forward self S T epoch = Inr loss
           \<and> forward self (permute_blocks p (nat (n_crops self)) b S)
                (permute_blocks p (nat (n_crops self)) b T) epoch = Inr loss"
proof -
  define K where "K = nat (n_crops self)"
  have pK: "\<forall>i<K. p i < K"
    using assms(2) unfolding K_def by (auto dest: bij_betwE)
  from assms(1) have nS: "nrows S = K * b" and nT: "nrows T = K * b"
    by (simp_all add: valid_call_def K_def)
  have v': "valid_call self (permute_blocks p K b S) (permute_blocks p K b T) epoch b"
    unfolding K_def using pK by (intro valid_call_permute [OF assms(1)]) (simp add: K_def)
  have pv: "pair_value self (permute_blocks p K b S) (permute_blocks p K b T) epoch b i j
          = pair_value self S T epoch b (p i) (p j)" if "i < K" "j < K" for i j
    unfolding pair_value_def
    by (simp add: student_block_permute [OF nS pK that(1)] teacher_block_permute [OF nT pK that(2)])
  have "(\<Sum>i\<leftarrow>[0..<K]. \<Sum>j\<leftarrow>filter (\<lambda>j. j \<noteq> i) [0..<K].
            pair_value self (permute_blocks p K b S) (permute_blocks p K b T) epoch b i j)
      = (\<Sum>i<K. \<Sum>j<K. if j \<noteq> i
            then pair_value self (permute_blocks p K b S) (permute_blocks p K b T) epoch b i j
            else 0)"
    by (rule pair_sum_as_set_sum)
  also have "\<dots> = (\<Sum>i<K. \<Sum>j<K. if j \<noteq> i
            then pair_value self S T epoch b (p i) (p j) else 0)"
    by (intro sum.cong refl) (simp add: pv)
  also have "\<dots> = (\<Sum>i<K. \<Sum>j<K. if j \<noteq> i then pair_value self S T epoch b i j else 0)"
    using assms(2) unfolding K_def by (rule pair_sum_reindex)
  also have "\<dots> = (\<Sum>i\<leftarrow>[0..<K]. \<Sum>j\<leftarrow>filter (\<lambda>j. j \<noteq> i) [0..<K].
            pair_value self S T epoch b i j)"
    by (rule pair_sum_as_set_sum [symmetric])
  finally show ?thesis
    using forward_valid [OF assms(1)] forward_valid [OF v'] by (simp add: K_def)
qed

section \<open>Row counts that the number of crops does not divide\<close>

lemma ceil_div_bounds:
  assumes "0 < (c::nat)"
  shows "c * ((n + c - 1) div c) < n + c" and "n \<le> c * ((n + c - 1) div c)"
proof -
  have "c * ((n + c - 1) div c) \<le> n + c - 1" by (rule times_div_less_eq_dividend)
  then show "c * ((n + c - 1) div c) < n + c" using assms by linarith
  have "n + c - 1 < c + c * ((n + c - 1) div c)"
    using assms by (rule dividend_less_times_div)
  then show "n \<le> c * ((n + c - 1) div c)" using assms by linarith
qed

lemma ragged_arith:
  fixes n K c m r :: nat
  assumes "0 < K" and "0 < n"
    and c: "c = (n + K - 1) div K"
    and m: "m = (n + c - 1) div c"
    and r: "r = n - c * (m - 1)"
  shows "0 < c" and "0 < m" and "m \<le> K" and "0 < r" and "r \<le> c"
    and "c * (m - 1) + r = n" and "c \<le> n"
proof -
  have "K \<le> n + K - 1" using assms(2) by simp
  then have "K div K \<le> (n + K - 1) div K" by (rule div_le_mono)
  then show c0: "0 < c" using assms(1) c by simp
  have nKc: "n \<le> K * c" unfolding c by (rule ceil_div_bounds(2) [OF assms(1)])
  have lo: "c * m < n + c" unfolding m by (rule ceil_div_bounds(1) [OF c0])
  have hi: "n \<le> c * m" unfolding m by (rule ceil_div_bounds(2) [OF c0])
  show m0: "0 < m"
  proof (rule ccontr)
    assume "\<not> 0 < m" with hi assms(2) show False by simp
  qed
  have "n + c - 1 \<le> K * c + c - 1" using nKc by simp
  then have "(n + c - 1) div c \<le> (K * c + c - 1) div c" by (rule div_le_mono)
  also have "\<dots> = K" by (rule div_ceil_blocks(2) [OF assms(1) c0])
  finally show "m \<le> K" unfolding m [symmetric] .
  have cm: "c * m = c * (m - 1) + c" using m0 by (cases m) simp_all
  from lo cm have lt: "c * (m - 1) < n" by simp
  then show "0 < r" unfolding r by simp
  from hi cm show "r \<le> c" unfolding r by simp
  from lt show "c * (m - 1) + r = n" unfolding r by simp
  have "n + K - 1 \<le> n * K" using assms(1,2)
    by (cases n; cases K) (simp_all add: algebra_simps)
  then have "(n + K - 1) div K \<le> (n * K) div K" by (rule div_le_mono)
  then show "c \<le> n" using assms(1) c by simp
qed

lemma chunk_ragged:
  assumes k: "0 < k" and n: "0 < nrows t"
    and c: "c = (nrows t + nat k - 1) div nat k"
    and m: "m = (nrows t + c - 1) div c"
    and r: "r = nrows t - c * (m - 1)"
  shows "\<exists>ps. chunk t k = Inr ps \<and> length ps = m \<and>
           (\<forall>i<m. ncols (ps ! i) = ncols t \<and> nrows (ps ! i) = (if i < m - 1 then c else r))"
proof -
  from k have K: "0 < nat k" by simp
  note ar = ragged_arith [OF K n c m r]
  have num: "max ((nrows t + c - 1) div c) 1 = m"
    using ar(2) m by simp
  have cm: "c * m = c * (m - 1) + c" using ar(2) by (cases m) simp_all
  have last: "c - (c * m - nrows t) = r"
    using ar(5,6) cm by linarith
  have ts: "tensor_split t c =
      map (\<lambda>i. narrow t (i * c) (if i < m - 1 then c else r)) [0..<m]"
    unfolding tensor_split_def Let_def using ar(1) num last by simp
  have ch: "chunk t k = Inr (tensor_split t c)"
    using n by (simp add: chunk_pos [OF k] c)
  have rows_i: "nrows (narrow t (i * c) (if i < m - 1 then c else r))
                 = (if i < m - 1 then c else r)" if "i < m" for i
  proof (cases "i < m - 1")
    case True
    then have "Suc i \<le> m - 1" by simp
    then have "Suc i * c \<le> (m - 1) * c" by (rule mult_le_mono1)
    then have "i * c + c \<le> nrows t" using ar(6) by (simp add: mult.commute)
    then show ?thesis using True by simp
  next
    case False
    with that have "i = m - 1" by simp
    then show ?thesis using False ar(6) by (simp add: mult.commute)
  qed
  show ?thesis
    unfolding ch ts using rows_i by (simp del: shape_simps(7))
qed

lemma kl_div_error:
  "kl_div x t = Inl e \<Longrightarrow> e = RuntimeError"
  by (auto simp: kl_div_def Let_def split: option.splits)

lemma kl_div_rows_mismatch:
  "broadcast_dim (nrows t) (nrows x) = None \<Longrightarrow> kl_div x t = Inl RuntimeError"
  by (simp add: kl_div_def)

lemma kl_div_broadcast_ok:
  assumes "broadcast_dim (nrows t) (nrows x) \<noteq> None" and "ncols x = ncols t"
  shows "\<not> isl (kl_div x t)"
proof -
  from assms(1) obtain R where R: "broadcast_dim (nrows t) (nrows x) = Some R" by auto
  have C: "broadcast_dim (ncols t) (ncols x) = Some (ncols t)"
    using assms(2) by (simp add: broadcast_dim_def)
  show ?thesis by (simp add: kl_div_def R C Let_def)
qed

lemma inner_first_fail:
  assumes "j \<noteq> i" and "pair_term ss ts i j = Inl e"
    and "\<forall>j'\<in>set js1. j' \<noteq> i \<longrightarrow> \<not> isl (pair_term ss ts i j')"
  shows "inner_loop ss ts i (js1 @ j # js2) acc = Inl e"
  using assms(3)
proof (induction js1 arbitrary: acc)
  case Nil
  obtain l c where "acc = (l, c)" by (cases acc)
  with assms(1,2) show ?case by simp
next
  case (Cons a js1)
  obtain l c where acc: "acc = (l, c)" by (cases acc)
  from Cons.prems have rest: "\<forall>j'\<in>set js1. j' \<noteq> i \<longrightarrow> \<not> isl (pair_term ss ts i j')"
    by simp
  show ?case
  proof (cases "i = a")
    case True
    then show ?thesis unfolding acc using Cons.IH [OF rest] by simp
  next
    case False
    with Cons.prems obtain v where "pair_term ss ts i a = Inr v"
      by (cases "pair_term ss ts i a") auto
    with False show ?thesis unfolding acc using Cons.IH [OF rest] by simp
  qed
qed

lemma upt_split_at:
  "j < K \<Longrightarrow> [0..<K] = [0..<j] @ j # [Suc j..<K]"
  by (metis le_add1 le_add_same_cancel1 less_imp_add_positive upt_add_eq_append upt_conv_Cons)

lemma broadcast_dim_ok:
  "a = b \<or> a = 1 \<or> b = 1 \<Longrightarrow> broadcast_dim a b \<noteq> None"
  by (auto simp: broadcast_dim_def)

lemma broadcast_dim_fail:
  "a \<noteq> b \<Longrightarrow> a \<noteq> 1 \<Longrightarrow> b \<noteq> 1 \<Longrightarrow> broadcast_dim a b = None"
  by (simp add: broadcast_dim_def)

lemma ragged_loops:
  assumes lens: "length ss = m" "length ts = m"
    and m: "0 < m" "m \<le> K"
    and r: "0 < r" "r \<le> c"
    and ss: "\<forall>i<m. ncols (ss ! i) = C \<and> nrows (ss ! i) = (if i < m - 1 then c else r)"
    and ts: "\<forall>i<m. ncols (ts ! i) = C \<and> nrows (ts ! i) = (if i < m - 1 then c else r)"
    and full: "m = K \<longrightarrow> r \<noteq> c" and single: "m = 1 \<longrightarrow> r = c"
  shows "m = K \<and> r = 1 \<longrightarrow>
           (\<exists>loss. outer_loop ss ts [0..<K] [0..<K] (0, 0) = Inr (loss, K * (K - 1)))"
    and "\<not> (m = K \<and> r = 1) \<longrightarrow>
           outer_loop ss ts [0..<K] [0..<K] (0, 0)
             = Inl (if r = 1 \<or> r = c then IndexError else RuntimeError)"
proof -
  have pt: "pair_term ss ts i j = kl_div (log_softmax (ss ! i)) (ts ! j)"
    if "i < m" "j < m" for i j
    using that lens by (simp add: pair_term_def)
  have K0: "0 < K" using m by simp
  have outer0: "outer_loop ss ts [0..<K] [0..<K] (0, 0) = Inl e"
    if "inner_loop ss ts 0 [0..<K] (0, 0) = Inl e" for e
  proof -
    have "[0..<K] = 0 # [Suc 0..<K]" using K0 by (simp add: upt_conv_Cons)
    then have "outer_loop ss ts [0..<K] [0..<K] (0, 0)
             = outer_loop ss ts [0..<K] (0 # [Suc 0..<K]) (0, 0)" by simp
    also have "\<dots> = Inl e" using that by simp
    finally show ?thesis .
  qed
  show "m = K \<and> r = 1 \<longrightarrow>
           (\<exists>loss. outer_loop ss ts [0..<K] [0..<K] (0, 0) = Inr (loss, K * (K - 1)))"
  proof
    assume a: "m = K \<and> r = 1"
    have ok: "\<not> isl (pair_term ss ts i j)" if "i < K" "j < K" for i j
    proof -
      from that a have ij: "i < m" "j < m" by simp_all
      have "nrows (ts ! j) = nrows (log_softmax (ss ! i)) \<or> nrows (ts ! j) = 1
            \<or> nrows (log_softmax (ss ! i)) = 1"
        using ss ts ij a by (auto simp del: shape_simps(7))
      then have "broadcast_dim (nrows (ts ! j)) (nrows (log_softmax (ss ! i))) \<noteq> None"
        by (rule broadcast_dim_ok)
      moreover have "ncols (log_softmax (ss ! i)) = ncols (ts ! j)"
        using ss ts ij by simp
      ultimately show ?thesis unfolding pt [OF ij] by (rule kl_div_broadcast_ok)
    qed
    have "outer_loop ss ts [0..<K] [0..<K] (0, 0) =
      Inr (0 + (\<Sum>i\<leftarrow>[0..<K]. \<Sum>j\<leftarrow>filter (\<lambda>j. j \<noteq> i) [0..<K]. projr (pair_term ss ts i j)),
           0 + (\<Sum>i\<leftarrow>[0..<K]. length (filter (\<lambda>j. j \<noteq> i) [0..<K])))"
      by (rule outer_loop_ok) (simp add: ok)
    then show "\<exists>loss. outer_loop ss ts [0..<K] [0..<K] (0, 0) = Inr (loss, K * (K - 1))"
      by (simp add: count_pairs)
  qed
  show "\<not> (m = K \<and> r = 1) \<longrightarrow>
           outer_loop ss ts [0..<K] [0..<K] (0, 0)
             = Inl (if r = 1 \<or> r = c then IndexError else RuntimeError)"
  proof
    assume na: "\<not> (m = K \<and> r = 1)"
    show "outer_loop ss ts [0..<K] [0..<K] (0, 0)
             = Inl (if r = 1 \<or> r = c then IndexError else RuntimeError)"
    proof (cases "r = 1 \<or> r = c")
      case True
      with na full m have mK: "m < K" by auto
      have fail: "pair_term ss ts 0 m = Inl IndexError"
        using lens m by (simp add: pair_term_def)
      have pre: "\<forall>j'\<in>set [0..<m]. j' \<noteq> 0 \<longrightarrow> \<not> isl (pair_term ss ts 0 j')"
      proof (intro ballI impI)
        fix j' assume "j' \<in> set [0..<m]" and "j' \<noteq> 0"
        then have ij: "0 < m" "j' < m" using m by simp_all
        have "nrows (ts ! j') = nrows (log_softmax (ss ! 0)) \<or> nrows (ts ! j') = 1
            \<or> nrows (log_softmax (ss ! 0)) = 1"
          using ss ts ij True by (auto simp del: shape_simps(7))
        then have "broadcast_dim (nrows (ts ! j')) (nrows (log_softmax (ss ! 0))) \<noteq> None"
          by (rule broadcast_dim_ok)
        moreover have "ncols (log_softmax (ss ! 0)) = ncols (ts ! j')"
          using ss ts ij by simp
        ultimately show "\<not> isl (pair_term ss ts 0 j')"
          unfolding pt [OF ij] by (rule kl_div_broadcast_ok)
      qed
      have m0: "m \<noteq> 0" using m by simp
      have "inner_loop ss ts 0 ([0..<m] @ m # [Suc m..<K]) (0, 0) = Inl IndexError"
        using m0 fail pre by (rule inner_first_fail)
      then have "inner_loop ss ts 0 [0..<K] (0, 0) = Inl IndexError"
        using upt_split_at [OF mK] by simp
      then show ?thesis using True outer0 by simp
    next
      case False
      then have r1: "r \<noteq> 1" and rc: "r \<noteq> c" by simp_all
      from rc single have "m \<noteq> 1" by auto
      with m have m2: "2 \<le> m" by simp
      from r r1 have c1: "c \<noteq> 1" by simp
      have ij: "0 < m" "m - 1 < m" using m by simp_all
      have row0: "nrows (log_softmax (ss ! 0)) = c"
        using ss ij(1) m2 by (simp del: shape_simps(7))
      have rowl: "nrows (ts ! (m - 1)) = r"
        using ts ij(2) by simp
      have "broadcast_dim (nrows (ts ! (m - 1))) (nrows (log_softmax (ss ! 0))) = None"
        unfolding row0 rowl using rc r1 c1 by (rule broadcast_dim_fail)
      then have fail: "pair_term ss ts 0 (m - 1) = Inl RuntimeError"
        unfolding pt [OF ij] by (rule kl_div_rows_mismatch)
      have pre: "\<forall>j'\<in>set [0..<m - 1]. j' \<noteq> 0 \<longrightarrow> \<not> isl (pair_term ss ts 0 j')"
      proof (intro ballI impI)
        fix j' assume "j' \<in> set [0..<m - 1]" and "j' \<noteq> 0"
        then have j: "j' < m - 1" by simp
        then have ij': "0 < m" "j' < m" by simp_all
        have "nrows (ts ! j') = nrows (log_softmax (ss ! 0))"
          using ss ts ij' j m2 by (simp del: shape_simps(7))
        then have "broadcast_dim (nrows (ts ! j')) (nrows (log_softmax (ss ! 0))) \<noteq> None"
          by (intro broadcast_dim_ok) simp
        moreover have "ncols (log_softmax (ss ! 0)) = ncols (ts ! j')"
          using ss ts ij' by simp
        ultimately show "\<not> isl (pair_term ss ts 0 j')"
          unfolding pt [OF ij'] by (rule kl_div_broadcast_ok)
      qed
      have ne: "m - 1 \<noteq> 0" using m2 by simp
      have lt: "m - 1 < K" using m by simp
      have "inner_loop ss ts 0 ([0..<m - 1] @ (m - 1) # [Suc (m - 1)..<K]) (0, 0)
              = Inl RuntimeError"
        using ne fail pre by (rule inner_first_fail)
      then have "inner_loop ss ts 0 [0..<K] (0, 0) = Inl RuntimeError"
        using upt_split_at [OF lt] by simp
      then show ?thesis using False outer0 by simp
    qed
  qed
qed

text \<open>
  Claim C4, as the code has it. Let both outputs have \<open>n\<close> rows and the same number of
  columns, let \<open>n_crops\<close> be positive and not divide \<open>n\<close>, and let the epoch lookup
  succeed. \<^verbatim>\<open>chunk\<close> then gives \<open>m = ceil (n / c)\<close> blocks of \<open>c = ceil (n / n_crops)\<close>
  rows, the last one of \<open>r = n - c * (m - 1)\<close> rows. No check of the shape is made: the
  call raises only where a later operation fails. It raises \<^verbatim>\<open>RuntimeError\<close> (the shape
  error of \<^verbatim>\<open>F.kl_div\<close>) when \<open>r\<close> is neither \<open>1\<close> nor \<open>c\<close>, and \<^verbatim>\<open>IndexError\<close> (a missing
  block) when \<open>r\<close> is \<open>1\<close> or \<open>c\<close> and fewer than \<open>n_crops\<close> blocks exist. When there are
  \<open>n_crops\<close> blocks and the last one has a single row, that row is broadcast against the
  longer blocks and the call returns a loss.
\<close>

theorem ragged_rows:
  assumes k: "0 < n_crops self"
    and shape: "nrows S = n" "nrows T = n" "ncols S = ncols T"
    and nd: "n mod nat (n_crops self) \<noteq> 0"
    and ep: "- int (length (teacher_temp_schedule self)) \<le> epoch"
            "epoch < int (length (teacher_temp_schedule self))"
    and c: "c = (n + nat (n_crops self) - 1) div nat (n_crops self)"
    and m: "m = (n + c - 1) div c"
    and r: "r = n - c * (m - 1)"
  shows "(m = nat (n_crops self) \<and> r = 1 \<longrightarrow> (\<exists>loss. forward self S T epoch = Inr loss))
       \<and> (\<not> (m = nat (n_crops self) \<and> r = 1) \<longrightarrow>
            forward self S T epoch = Inl (if r = 1 \<or> r = c then IndexError else RuntimeError))"
proof -
  define K where "K = nat (n_crops self)"
  have K0: "0 < K" using k by (simp add: K_def)
  have n0: "0 < n" using nd by (cases n) simp_all
  note ar = ragged_arith [OF K0 n0 c [folded K_def] m r]
  have full: "m = K \<longrightarrow> r \<noteq> c"
  proof (intro impI notI)
    assume "m = K" and "r = c"
    with ar(2,6) have "n = c * K" by (cases K) simp_all
    with nd show False by (simp add: K_def)
  qed
  have single: "m = 1 \<longrightarrow> r = c"
    using ar(5,6,7) by auto
  have "\<exists>temp. np_getitem (teacher_temp_schedule self) epoch = Inr temp"
    using ep by (cases "epoch < 0") (simp_all add: np_getitem_def Let_def)
  then obtain temp where g: "np_getitem (teacher_temp_schedule self) epoch = Inr temp" ..
  define S' where "S' = tensor_div S (student_temp self)"
  define T' where "T' = softmax (tensor_div T temp)"
  have nS: "0 < nrows S'" "nrows S' = n" and nT: "0 < nrows T'" "nrows T' = n"
    using n0 shape by (simp_all add: S'_def T'_def)
  obtain ss where ss: "chunk S' (n_crops self) = Inr ss" "length ss = m"
    "\<forall>i<m. ncols (ss ! i) = ncols S' \<and> nrows (ss ! i) = (if i < m - 1 then c else r)"
    using chunk_ragged [OF k nS(1), of c m r] c m r unfolding nS(2) by blast
  obtain ts where ts: "chunk T' (n_crops self) = Inr ts" "length ts = m"
    "\<forall>i<m. ncols (ts ! i) = ncols T' \<and> nrows (ts ! i) = (if i < m - 1 then c else r)"
    using chunk_ragged [OF k nT(1), of c m r] c m r unfolding nT(2) by blast
  have cols: "ncols T' = ncols S'" using shape(3) by (simp add: S'_def T'_def)
  note loops = ragged_loops [OF ss(2) ts(2) ar(2,3,4,5) ss(3) ts(3) [unfolded cols] full single]
  have acc: "accumulate self S T epoch = outer_loop ss ts [0..<K] [0..<K] (0, 0)"
    using ss(1) ts(1) g by (simp add: accumulate_def S'_def T'_def py_range_def K_def)
  show ?thesis
  proof (intro conjI impI)
    assume a: "m = nat (n_crops self) \<and> r = 1"
    then obtain loss where l: "outer_loop ss ts [0..<K] [0..<K] (0, 0) = Inr (loss, K * (K - 1))"
      using loops(1) by (auto simp: K_def)
    have "K \<noteq> 1" using nd by (auto simp: K_def)
    with K0 have "K * (K - 1) \<noteq> 0" by simp
    then show "\<exists>loss. forward self S T epoch = Inr loss"
      by (simp add: forward_def acc l)
  next
    assume "\<not> (m = nat (n_crops self) \<and> r = 1)"
    then have "outer_loop ss ts [0..<K] [0..<K] (0, 0)
        = Inl (if r = 1 \<or> r = c then IndexError else RuntimeError)"
      using loops(2) by (simp add: K_def)
    then show "forward self S T epoch = Inl (if r = 1 \<or> r = c then IndexError else RuntimeError)"
      by (simp add: forward_def acc)
  qed
qed

theorem ragged_rows_witness:
  "(5::nat) mod nat 2 \<noteq> 0
   \<and> forward \<lparr>student_temp = 1/10, n_crops = 2, teacher_temp_schedule = [7/100, 4/100]\<rparr>
      \<lparr>ncols = 1, rows = [[0], [1], [2], [3], [4]]\<rparr>
      \<lparr>ncols = 1, rows = [[4], [3], [2], [1], [0]]\<rparr> 0 = Inl RuntimeError
   \<and> (4::nat) mod nat 3 \<noteq> 0
   \<and> forward \<lparr>student_temp = 1/10, n_crops = 3, teacher_temp_schedule = [7/100, 4/100]\<rparr>
      \<lparr>ncols = 1, rows = [[0], [1], [2], [3]]\<rparr>
      \<lparr>ncols = 1, rows = [[3], [2], [1], [0]]\<rparr> 0 = Inl IndexError"
proof -
  let ?two = "\<lparr>student_temp = 1/10, n_crops = 2, teacher_temp_schedule = [7/100, 4/100]\<rparr>"
  let ?S5 = "\<lparr>ncols = 1, rows = [[0], [1], [2], [3], [4]]\<rparr>"
  let ?T5 = "\<lparr>ncols = 1, rows = [[4], [3], [2], [1], [0]]\<rparr>"
  have k: "0 < n_crops ?two" by simp
  have nS: "nrows ?S5 = 5" by (simp add: nrows_def)
  have nT: "nrows ?T5 = 5" by (simp add: nrows_def)
  have nc: "ncols ?S5 = ncols ?T5" by simp
  have nd: "5 mod nat (n_crops ?two) \<noteq> 0" by simp
  have e1: "- int (length (teacher_temp_schedule ?two)) \<le> 0" by simp
  have e2: "0 < int (length (teacher_temp_schedule ?two))" by simp
  have c: "(3::nat) = (5 + nat (n_crops ?two) - 1) div nat (n_crops ?two)" by simp
  have m: "(2::nat) = (5 + 3 - 1) div 3" by simp
  have r: "(2::nat) = 5 - 3 * (2 - 1)" by simp
  from ragged_rows [OF k nS nT nc nd e1 e2 c m r]
  have first: "forward ?two ?S5 ?T5 0 = Inl RuntimeError" by simp
  let ?three = "\<lparr>student_temp = 1/10, n_crops = 3, teacher_temp_schedule = [7/100, 4/100]\<rparr>"
  let ?S4 = "\<lparr>ncols = 1, rows = [[0], [1], [2], [3]]\<rparr>"
  let ?T4 = "\<lparr>ncols = 1, rows = [[3], [2], [1], [0]]\<rparr>"
  have k': "0 < n_crops ?three" by simp
  have nS': "nrows ?S4 = 4" by (simp add: nrows_def)
  have nT': "nrows ?T4 = 4" by (simp add: nrows_def)
  have nc': "ncols ?S4 = ncols ?T4" by simp
  have nd': "4 mod nat (n_crops ?three) \<noteq> 0" by simp
  have e1': "- int (length (teacher_temp_schedule ?three)) \<le> 0" by simp
  have e2': "0 < int (length (teacher_temp_schedule ?three))" by simp
  have c': "(2::nat) = (4 + nat (n_crops ?three) - 1) div nat (n_crops ?three)" by simp
  have m': "(2::nat) = (4 + 2 - 1) div 2" by simp
  have r': "(2::nat) = 4 - 2 * (2 - 1)" by simp
  from ragged_rows [OF k' nS' nT' nc' nd' e1' e2' c' m' r']
  have second: "forward ?three ?S4 ?T4 0 = Inl IndexError" by simp
  from first second show ?thesis by simp
qed

text \<open>
  Claim C4 as it is written asks for a shape error whenever \<open>n_crops\<close> does not divide
  the number of rows. With three rows and two crops the blocks have two rows and one
  row, and the call returns a loss.
\<close>

theorem ragged_chunks_accepted:
  "forward \<lparr>student_temp = 1/10, n_crops = 2, teacher_temp_schedule = [7/100, 4/100, 4/100]\<rparr>
      \<lparr>ncols = 2, rows = [[0, 0], [0, 0], [0, 0]]\<rparr>
      \<lparr>ncols = 2, rows = [[0, 0], [0, 0], [0, 0]]\<rparr> 0 = Inr 0
   \<and> 3 mod nat 2 \<noteq> (0::nat)"
  by (simp add: forward_eval)

end
